theory Spec2Isabelle
  imports Main "HOL-Library.AList" "HOL-Library.Char_ord" "HOL-Library.List_Lexorder"
begin

section \<open>awsmfa: rotation of MFA-validated temporary credentials\<close>

text \<open>
  A shallow embedding of \<^verbatim>\<open>awsmfa/__main__.py\<close>. The three functions of the module
  (\<^verbatim>\<open>main\<close>, \<^verbatim>\<open>find_mfa_for_user\<close>, \<^verbatim>\<open>update_credentials_file\<close>) are translated
  statement by statement. What they call is made explicit:
  \<^item> the identity service (IAM, STS), the terminal and the clock are an environment
    record \<open>env\<close> holding what each call would answer; every call made is logged as an
    \<open>event\<close>, in order, next to what is printed;
  \<^item> exceptions are values of \<open>exn\<close>; a function that can raise returns \<open>exn + 'a\<close>;
  \<^item> the \<^verbatim>\<open>ConfigParser\<close> object is a \<open>store\<close> (its \<^verbatim>\<open>_defaults\<close> and
    \<^verbatim>\<open>_sections\<close> dictionaries, as association lists in insertion order), and the
    methods the module calls on it are modelled after CPython 3.11's
    \<^verbatim>\<open>configparser.py\<close>;
  \<^item> the file system is a map from paths to file contents.
  Strings are lists of characters; a character stands for a code point below 256.
\<close>

subsection \<open>Python strings\<close>

text \<open>Truth value of an \<^verbatim>\<open>Optional[str]\<close>: \<^verbatim>\<open>None\<close> and \<^verbatim>\<open>''\<close> are false.\<close>

definition truthy :: "string option \<Rightarrow> bool" where
  "truthy s = (case s of None \<Rightarrow> False | Some x \<Rightarrow> x \<noteq> [])"

text \<open>\<^verbatim>\<open>s.endswith(suf)\<close>.\<close>

definition endswith :: "string \<Rightarrow> string \<Rightarrow> bool" where
  "endswith s suf = (length suf \<le> length s \<and> drop (length s - length suf) s = suf)"

text \<open>\<^verbatim>\<open>c.isspace()\<close> for code points below 256.\<close>

definition isspace :: "char \<Rightarrow> bool" where
  "isspace c = (c \<in> set [CHR 0x09, CHR 0x0A, CHR 0x0B, CHR 0x0C, CHR 0x0D,
                          CHR 0x1C, CHR 0x1D, CHR 0x1E, CHR 0x1F, CHR 0x20,
                          CHR 0x85, CHR 0xA0])"

definition lstrip :: "string \<Rightarrow> string" where
  "lstrip s = dropWhile isspace s"

definition rstrip :: "string \<Rightarrow> string" where
  "rstrip s = rev (dropWhile isspace (rev s))"

definition strip :: "string \<Rightarrow> string" where
  "strip s = rstrip (lstrip s)"

text \<open>\<^verbatim>\<open>c.lower()\<close> for code points below 256: A-Z, and the Latin-1 capitals but the
  multiplication sign.\<close>

definition lower_char :: "char \<Rightarrow> char" where
  "lower_char c =
     (let n = (of_char c :: nat)
      in if (65 \<le> n \<and> n \<le> 90) \<or> (192 \<le> n \<and> n \<le> 222 \<and> n \<noteq> 215)
         then char_of (n + 32) else c)"

text \<open>\<^verbatim>\<open>sep.join(xs)\<close>.\<close>

fun join :: "string \<Rightarrow> string list \<Rightarrow> string" where
  "join sep [] = []"
| "join sep [x] = x"
| "join sep (x # y # ys) = x @ sep @ join sep (y # ys)"

text \<open>\<^verbatim>\<open>'%d' % n\<close> for a natural number, and the zero-padded \<^verbatim>\<open>'%0wd' % n\<close>.\<close>

definition digit_char :: "nat \<Rightarrow> char" where
  "digit_char d = ''0123456789'' ! d"

fun str_nat :: "nat \<Rightarrow> string" where
  "str_nat n = (if n < 10 then [digit_char n] else str_nat (n div 10) @ [digit_char (n mod 10)])"

declare str_nat.simps [simp del]

definition zero_pad :: "nat \<Rightarrow> nat \<Rightarrow> string" where
  "zero_pad w n = replicate (w - length (str_nat n)) (CHR ''0'') @ str_nat n"

subsection \<open>Exceptions, service answers and events\<close>

text \<open>
  The exceptions the module can meet. \<open>ClientError code text\<close> is botocore's
  \<^verbatim>\<open>ClientError\<close> with \<^verbatim>\<open>err.response["Error"]["Code"]\<close> and \<^verbatim>\<open>str(err)\<close>;
  \<open>OtherError\<close> is any other exception a service call raises (connection failures,
  parameter validation).
\<close>

datatype exn =
    ClientError string string
  | OtherError string
  | KeyError string
  | TypeError
  | ValueError
  | EOFError
  | OSError
  | NoSectionError string
  | DuplicateSectionError string
  | DuplicateOptionError string string
  | MissingSectionHeaderError
  | ParsingError
  | InterpolationDepthError
  | InterpolationSyntaxError
  | InterpolationMissingOptionError string

text \<open>
  A timestamp as \<^verbatim>\<open>datetime.datetime\<close> holds it. \<open>utcoffset\<close> is \<open>None\<close> for a naive
  value, else the offset from UTC in seconds (offsets are taken to be whole seconds).
\<close>

record datetime =
  year :: nat
  month :: nat
  day :: nat
  hour :: nat
  minute :: nat
  second :: nat
  microsecond :: nat
  utcoffset :: "int option"

text \<open>\<^verbatim>\<open>response['Credentials']\<close> of both STS operations.\<close>

record credentials =
  AccessKeyId :: string
  SecretAccessKey :: string
  SessionToken :: string
  Expiration :: datetime

text \<open>\<^verbatim>\<open>iam.get_user()['User']\<close>; the account's root user has no \<^verbatim>\<open>UserName\<close>.\<close>

record iam_user =
  Arn :: string
  UserName :: "string option"

record mfa_device =
  SerialNumber :: string

text \<open>
  The dictionary \<^verbatim>\<open>list_mfa_devices\<close> returns: the keys \<^verbatim>\<open>MFADevices\<close>,
  \<^verbatim>\<open>IsTruncated\<close> and \<^verbatim>\<open>ResponseMetadata\<close>, and \<^verbatim>\<open>Marker\<close> when the list is
  truncated.
\<close>

record list_mfa_devices_response =
  MFADevices :: "mfa_device list"
  IsTruncated :: bool
  Marker :: "string option"

text \<open>\<^verbatim>\<open>len(d)\<close> of that dictionary: the number of its keys.\<close>

definition len_response :: "list_mfa_devices_response \<Rightarrow> nat" where
  "len_response r = (case Marker r of None \<Rightarrow> 3 | Some _ \<Rightarrow> 4)"

text \<open>
  The requests sent to the identity service. \<open>ListMFADevices None\<close> is the listing the
  \<^verbatim>\<open>CurrentUser().mfa_devices\<close> collection issues (no user name in the request);
  \<open>ListMFADevices (Some u)\<close> is \<^verbatim>\<open>list_mfa_devices(UserName=u)\<close>.
  \<open>AssumeRole d arn name serial code\<close> and \<open>GetSessionToken d serial code\<close> carry
  \<^verbatim>\<open>DurationSeconds\<close> first.
\<close>

datatype api_call =
    GetUser
  | ListMFADevices "string option"
  | AssumeRole int string string string string
  | GetSessionToken int string string

datatype event =
    ApiCall api_call
  | Stderr string
  | Stdout string
  | StdoutRemaining datetime datetime
  | Getpass string

text \<open>
  \<open>StdoutRemaining expiration now\<close> stands for the line
  \<^verbatim>\<open>"Temporary credentials will expire in %s." % (expiration - now)\<close>.
\<close>

text \<open>What can go wrong while the temporary file is written and renamed.\<close>

datatype fault = NoFault | OpenFails | WriteFails nat | RenameFails

record env =
  VERSION :: string
  available_profiles :: "string list"
  iam_get_user :: "exn + iam_user"
  iam_current_user_mfa_devices :: "exn + string list"
  iam_list_mfa_devices :: "string \<Rightarrow> exn + list_mfa_devices_response"
  sts :: "api_call \<Rightarrow> exn + credentials"
  getpass_input :: "string list"
  now :: datetime
  io_fault :: fault

text \<open>
  \<open>iam_current_user_mfa_devices\<close> is what iterating
  \<^verbatim>\<open>resource('iam').CurrentUser().mfa_devices.all()\<close> yields, as the devices'
  \<^verbatim>\<open>serial_number\<close>s. \<open>getpass_input\<close> is what the operator types at the successive
  prompts; at the end of the input \<^verbatim>\<open>getpass\<close> raises \<^verbatim>\<open>EOFError\<close>.
\<close>

subsection \<open>find_mfa_for_user\<close>

text \<open>
  Lines 180-186, shared by both branches. \<open>len_devices\<close> is \<^verbatim>\<open>len(devices)\<close>: the
  number of keys of the response dictionary for a standard user, and a \<^verbatim>\<open>TypeError\<close>
  for the root user, whose \<open>devices\<close> is a boto3 resource collection (it has no
  \<^verbatim>\<open>__len__\<close>).
\<close>

definition warning_text :: "nat \<Rightarrow> string" where
  "warning_text n = ''Warning: user has '' @ str_nat n @ '' MFA devices. Using the first.''"

definition pick_serial :: "string list \<Rightarrow> exn + nat \<Rightarrow> event list \<Rightarrow> (exn + string option) \<times> event list" where
  "pick_serial serials len_devices evs =
     (case serials of
        [] \<Rightarrow> (Inr None, evs)
      | s # rest \<Rightarrow>
          if length serials > 1 then
            (case len_devices of
               Inl e \<Rightarrow> (Inl e, evs)
             | Inr n \<Rightarrow> (Inr (Some s), evs @ [Stderr (warning_text n)]))
          else (Inr (Some s), evs))"

definition find_mfa_for_user :: "string option \<Rightarrow> env \<Rightarrow> (exn + string option) \<times> event list" where
  "find_mfa_for_user user_specified_serial w =
     (if truthy user_specified_serial then (Inr user_specified_serial, [])
      else
        case iam_get_user w of
          Inl e \<Rightarrow> (Inl e, [ApiCall GetUser])
        | Inr user \<Rightarrow>
            if endswith (Arn user) '':root'' then
              (case iam_current_user_mfa_devices w of
                 Inl e \<Rightarrow> (Inl e, [ApiCall GetUser, ApiCall (ListMFADevices None)])
               | Inr serials \<Rightarrow>
                   pick_serial serials (Inl TypeError)
                     [ApiCall GetUser, ApiCall (ListMFADevices None)])
            else
              (case UserName user of
                 None \<Rightarrow> (Inl (KeyError ''UserName''), [ApiCall GetUser])
               | Some username \<Rightarrow>
                   (case iam_list_mfa_devices w username of
                      Inl e \<Rightarrow> (Inl e, [ApiCall GetUser, ApiCall (ListMFADevices (Some username))])
                    | Inr devices \<Rightarrow>
                        pick_serial (map SerialNumber (MFADevices devices))
                          (Inr (len_response devices))
                          [ApiCall GetUser, ApiCall (ListMFADevices (Some username))])))"

subsection \<open>The ConfigParser object\<close>

text \<open>
  \<^verbatim>\<open>configparser.ConfigParser(default_section=None)\<close>: the dictionaries \<^verbatim>\<open>_defaults\<close>
  and \<^verbatim>\<open>_sections\<close>, in insertion order. A dictionary is an association list;
  \<open>AList.update\<close> is \<^verbatim>\<open>d[k] = v\<close> (an existing key keeps its place, a new one goes
  last) and \<open>AList.delete\<close> is \<^verbatim>\<open>del d[k]\<close>.
\<close>

type_synonym profile = "(string \<times> string) list"

record store =
  defaults :: profile
  sections :: "(string \<times> profile) list"

definition empty_store :: store where
  "empty_store = \<lparr>defaults = [], sections = []\<rparr>"

text \<open>\<^verbatim>\<open>d.update(other)\<close>.\<close>

definition dict_update :: "('k \<times> 'v) list \<Rightarrow> ('k \<times> 'v) list \<Rightarrow> ('k \<times> 'v) list" where
  "dict_update d other = foldl (\<lambda>acc (k, v). AList.update k v acc) d other"

definition optionxform :: "string \<Rightarrow> string" where
  "optionxform optionstr = map lower_char optionstr"

subsubsection \<open>BasicInterpolation\<close>

definition MAX_INTERPOLATION_DEPTH :: nat where
  "MAX_INTERPOLATION_DEPTH = 10"

text \<open>
  \<^verbatim>\<open>_KEYCRE.match(s)\<close> for \<^verbatim>\<open>%\(([^)]+)\)s\<close>: the name in the parentheses and what
  follows the match.
\<close>

definition keycre_match :: "string \<Rightarrow> (string \<times> string) option" where
  "keycre_match s =
     (case s of
        c1 # c2 # t \<Rightarrow>
          if c1 = CHR ''%'' \<and> c2 = CHR ''('' then
            (case dropWhile (\<lambda>c. c \<noteq> CHR '')'') t of
               p # q # rest \<Rightarrow>
                 if takeWhile (\<lambda>c. c \<noteq> CHR '')'') t \<noteq> [] \<and> q = CHR ''s''
                 then Some (takeWhile (\<lambda>c. c \<noteq> CHR '')'') t, rest) else None
             | _ \<Rightarrow> None)
          else None
      | _ \<Rightarrow> None)"

lemma keycre_match_shorter: "keycre_match s = Some (name, rest) \<Longrightarrow> length rest < length s"
proof -
  assume a: "keycre_match s = Some (name, rest)"
  then obtain c1 c2 t where s: "s = c1 # c2 # t"
    by (auto simp: keycre_match_def split: list.splits)
  from a s obtain p q where d: "dropWhile (\<lambda>c. c \<noteq> CHR '')'') t = p # q # rest"
    by (auto simp: keycre_match_def split: list.splits if_splits)
  have "length (dropWhile (\<lambda>c. c \<noteq> CHR '')'') t) \<le> length t"
    by (rule length_dropWhile_le)
  with d s show ?thesis by simp
qed

text \<open>\<^verbatim>\<open>_interpolate_some\<close>; the text appended to \<^verbatim>\<open>accum\<close> is the result.\<close>

function interpolate_some :: "profile \<Rightarrow> nat \<Rightarrow> string \<Rightarrow> exn + string" where
  "interpolate_some m depth rest =
     (if depth > MAX_INTERPOLATION_DEPTH then Inl InterpolationDepthError
      else if rest = [] then Inr []
      else if dropWhile (\<lambda>c. c \<noteq> CHR ''%'') rest = [] then Inr rest
      else if take 1 (drop 1 (dropWhile (\<lambda>c. c \<noteq> CHR ''%'') rest)) = ''%'' then
        (case interpolate_some m depth (drop 2 (dropWhile (\<lambda>c. c \<noteq> CHR ''%'') rest)) of
           Inl x \<Rightarrow> Inl x
         | Inr t \<Rightarrow> Inr (takeWhile (\<lambda>c. c \<noteq> CHR ''%'') rest @ ''%'' @ t))
      else if take 1 (drop 1 (dropWhile (\<lambda>c. c \<noteq> CHR ''%'') rest)) = ''('' then
        (case keycre_match (dropWhile (\<lambda>c. c \<noteq> CHR ''%'') rest) of
           None \<Rightarrow> Inl InterpolationSyntaxError
         | Some (name, rest') \<Rightarrow>
             (case map_of m (optionxform name) of
                None \<Rightarrow> Inl (InterpolationMissingOptionError (optionxform name))
              | Some v \<Rightarrow>
                  (case (if CHR ''%'' \<in> set v then interpolate_some m (depth + 1) v else Inr v) of
                     Inl x \<Rightarrow> Inl x
                   | Inr expanded \<Rightarrow>
                       (case interpolate_some m depth rest' of
                          Inl x \<Rightarrow> Inl x
                        | Inr t \<Rightarrow>
                            Inr (takeWhile (\<lambda>c. c \<noteq> CHR ''%'') rest @ expanded @ t)))))
      else Inl InterpolationSyntaxError)"
  by pat_completeness auto
termination
proof (relation "inv_image (less_than <*lex*> less_than)
                   (\<lambda>(m, depth, rest). (Suc MAX_INTERPOLATION_DEPTH - depth, length rest))")
  show "wf (inv_image (less_than <*lex*> less_than)
              (\<lambda>(m, depth, rest). (Suc MAX_INTERPOLATION_DEPTH - depth, length rest)))"
    by (intro wf_inv_image wf_lex_prod wf_less_than)
next
  fix m :: profile and depth :: nat and rest :: string
  assume "dropWhile (\<lambda>c. c \<noteq> CHR ''%'') rest \<noteq> []"
  then have "length (drop 2 (dropWhile (\<lambda>c. c \<noteq> CHR ''%'') rest)) < length rest"
    using length_dropWhile_le [of "\<lambda>c. c \<noteq> CHR ''%''" rest]
    by (cases "dropWhile (\<lambda>c. c \<noteq> CHR ''%'') rest") auto
  then show "((m, depth, drop 2 (dropWhile (\<lambda>c. c \<noteq> CHR ''%'') rest)), (m, depth, rest))
        \<in> inv_image (less_than <*lex*> less_than)
            (\<lambda>(m, depth, rest). (Suc MAX_INTERPOLATION_DEPTH - depth, length rest))"
    by simp
next
  fix m :: profile and depth :: nat and rest v :: string
  assume "\<not> MAX_INTERPOLATION_DEPTH < depth"
  then show "((m, depth + 1, v), (m, depth, rest))
        \<in> inv_image (less_than <*lex*> less_than)
            (\<lambda>(m, depth, rest). (Suc MAX_INTERPOLATION_DEPTH - depth, length rest))"
    by auto
next
  fix m :: profile and depth :: nat and rest name rest' :: string and x2 :: "string \<times> string"
  assume "keycre_match (dropWhile (\<lambda>c. c \<noteq> CHR ''%'') rest) = Some x2" "(name, rest') = x2"
  then have "length rest' < length (dropWhile (\<lambda>c. c \<noteq> CHR ''%'') rest)"
    using keycre_match_shorter by metis
  then have "length rest' < length rest"
    using length_dropWhile_le [of "\<lambda>c. c \<noteq> CHR ''%''" rest] by linarith
  then show "((m, depth, rest'), (m, depth, rest))
        \<in> inv_image (less_than <*lex*> less_than)
            (\<lambda>(m, depth, rest). (Suc MAX_INTERPOLATION_DEPTH - depth, length rest))"
    by simp
qed

declare interpolate_some.simps [simp del]

definition before_get :: "profile \<Rightarrow> string \<Rightarrow> exn + string" where
  "before_get d v = interpolate_some d 1 v"

text \<open>\<^verbatim>\<open>value.replace('%%', '')\<close> and \<^verbatim>\<open>_KEYCRE.sub('', tmp_value)\<close>.\<close>

fun remove_escaped :: "string \<Rightarrow> string" where
  "remove_escaped (a # b # cs) =
     (if a = CHR ''%'' \<and> b = CHR ''%'' then remove_escaped cs else a # remove_escaped (b # cs))"
| "remove_escaped cs = cs"

function keycre_sub :: "string \<Rightarrow> string" where
  "keycre_sub [] = []"
| "keycre_sub (c # cs) =
     (case keycre_match (c # cs) of
        Some (name, rest) \<Rightarrow> keycre_sub rest
      | None \<Rightarrow> c # keycre_sub cs)"
  by pat_completeness auto
termination
  by (relation "measure length") (auto dest: keycre_match_shorter)

definition before_set :: "string \<Rightarrow> exn + string" where
  "before_set v = (if CHR ''%'' \<in> set (keycre_sub (remove_escaped v)) then Inl ValueError else Inr v)"

subsubsection \<open>Sections and options\<close>

definition remove_section :: "store \<Rightarrow> string \<Rightarrow> store" where
  "remove_section cp section = cp\<lparr>sections := AList.delete section (sections cp)\<rparr>"

definition add_section :: "store \<Rightarrow> string \<Rightarrow> exn + store" where
  "add_section cp section =
     (if section \<in> set (map fst (sections cp)) then Inl (DuplicateSectionError section)
      else Inr (cp\<lparr>sections := sections cp @ [(section, [])]\<rparr>))"

text \<open>
  \<^verbatim>\<open>items(section)\<close>: the options of \<^verbatim>\<open>_defaults\<close> overlaid with the section's, each
  value interpolated against that overlay, in order; the first failing interpolation
  raises.
\<close>

fun get_values :: "profile \<Rightarrow> profile \<Rightarrow> exn + profile" where
  "get_values d [] = Inr []"
| "get_values d ((option, v) # kvs) =
     (case before_get d v of
        Inl x \<Rightarrow> Inl x
      | Inr v' \<Rightarrow>
          (case get_values d kvs of
             Inl x \<Rightarrow> Inl x
           | Inr r \<Rightarrow> Inr ((option, v') # r)))"

definition items :: "store \<Rightarrow> string \<Rightarrow> exn + profile" where
  "items cp section =
     (case map_of (sections cp) section of
        None \<Rightarrow> Inl (NoSectionError section)
      | Some sect \<Rightarrow> get_values (dict_update (defaults cp) sect) (dict_update (defaults cp) sect))"

text \<open>
  \<^verbatim>\<open>set(section, option, value)\<close>. A non-empty value goes through \<^verbatim>\<open>before_set\<close>; an
  empty section name addresses \<^verbatim>\<open>_defaults\<close> (\<^verbatim>\<open>if not section\<close>); the option name
  goes through \<^verbatim>\<open>optionxform\<close>.
\<close>

definition set_option :: "store \<Rightarrow> string \<Rightarrow> string \<Rightarrow> string \<Rightarrow> exn + store" where
  "set_option cp section option v =
     (case (if v \<noteq> [] then before_set v else Inr v) of
        Inl x \<Rightarrow> Inl x
      | Inr v' \<Rightarrow>
          if section = [] then
            Inr (cp\<lparr>defaults := AList.update (optionxform option) v' (defaults cp)\<rparr>)
          else
            (case map_of (sections cp) section of
               None \<Rightarrow> Inl (NoSectionError section)
             | Some sectdict \<Rightarrow>
                 Inr (cp\<lparr>sections :=
                   AList.update section (AList.update (optionxform option) v' sectdict)
                     (sections cp)\<rparr>)))"

subsubsection \<open>Writing\<close>

text \<open>\<^verbatim>\<open>str(value).replace('\n', '\n\t')\<close>.\<close>

definition replace_newlines :: "string \<Rightarrow> string" where
  "replace_newlines s = concat (map (\<lambda>c. if c = CHR 0x0A then [CHR 0x0A, CHR 0x09] else [c]) s)"

definition write_option :: "string \<times> string \<Rightarrow> string" where
  "write_option kv = fst kv @ '' = '' @ replace_newlines (snd kv) @ [CHR 0x0A]"

definition write_section :: "string \<Rightarrow> profile \<Rightarrow> string" where
  "write_section section_name section_items =
     ''['' @ section_name @ '']'' @ [CHR 0x0A] @ concat (map write_option section_items) @ [CHR 0x0A]"

text \<open>
  \<^verbatim>\<open>write(fp)\<close>: everything written to \<^verbatim>\<open>fp\<close>. The default section's name is
  \<^verbatim>\<open>None\<close>, which \<^verbatim>\<open>"[{}]\n".format\<close> renders as \<^verbatim>\<open>[None]\<close>.
\<close>

definition cp_write :: "store \<Rightarrow> string" where
  "cp_write cp =
     (if defaults cp \<noteq> [] then write_section ''None'' (defaults cp) else []) @
     concat (map (\<lambda>(section, section_items). write_section section section_items) (sections cp))"

subsubsection \<open>Reading\<close>

text \<open>
  A file opened in text mode turns \<^verbatim>\<open>\r\n\<close> and a lone \<^verbatim>\<open>\r\<close> into \<^verbatim>\<open>\n\<close>, and
  iterating over it yields its lines. The lines are kept without their final
  \<^verbatim>\<open>\n\<close>: the parser only strips them and looks for their first non-space character.
\<close>

fun universal_newlines :: "string \<Rightarrow> string" where
  "universal_newlines [] = []"
| "universal_newlines [c] = (if c = CHR 0x0D then [CHR 0x0A] else [c])"
| "universal_newlines (c # d # cs) =
     (if c = CHR 0x0D \<and> d = CHR 0x0A then CHR 0x0A # universal_newlines cs
      else if c = CHR 0x0D then CHR 0x0A # universal_newlines (d # cs)
      else c # universal_newlines (d # cs))"

fun file_lines :: "string \<Rightarrow> string list" where
  "file_lines [] = []"
| "file_lines (c # cs) =
     (if c = CHR 0x0A then [] # file_lines cs
      else (case file_lines cs of [] \<Rightarrow> [[c]] | l # ls \<Rightarrow> (c # l) # ls))"

text \<open>
  The state of the loop of \<^verbatim>\<open>_read\<close>. \<open>r_sections\<close> is \<^verbatim>\<open>_sections\<close>, each value
  still the list of its lines; \<open>r_sectname\<close> is \<open>None\<close> as long as \<^verbatim>\<open>cursect\<close> is
  \<^verbatim>\<open>None\<close> and names the dictionary \<^verbatim>\<open>cursect\<close> refers to afterwards. In
  \<open>r_elements_added\<close> a section name \<open>s\<close> is \<open>(s, None)\<close> and a pair of a section and an
  option name is \<open>(s, Some k)\<close>. \<open>r_e\<close> tells whether a \<^verbatim>\<open>ParsingError\<close> is pending.
\<close>

record read_state =
  r_sections :: "(string \<times> (string \<times> string list) list) list"
  r_sectname :: "string option"
  r_optname :: "string option"
  r_indent_level :: nat
  r_elements_added :: "(string \<times> string option) list"
  r_e :: bool

definition initial_read_state :: read_state where
  "initial_read_state =
     \<lparr>r_sections = [], r_sectname = None, r_optname = None, r_indent_level = 0,
      r_elements_added = [], r_e = False\<rparr>"

text \<open>\<^verbatim>\<open>line.strip().startswith(prefix)\<close> for one of the prefixes \<^verbatim>\<open>#\<close> and \<^verbatim>\<open>;\<close>.\<close>

definition is_comment_line :: "string \<Rightarrow> bool" where
  "is_comment_line line =
     (case strip line of [] \<Rightarrow> False | c # _ \<Rightarrow> c = CHR ''#'' \<or> c = CHR '';'')"

text \<open>The start of \<^verbatim>\<open>NONSPACECRE.search(line)\<close>, or 0 without a match.\<close>

definition first_nonspace :: "string \<Rightarrow> nat" where
  "first_nonspace line = (if list_all isspace line then 0 else length (takeWhile isspace line))"

text \<open>
  \<^verbatim>\<open>SECTCRE.match(value)\<close> for \<^verbatim>\<open>\[(?P<header>.+)\]\<close>: the greedy header runs from
  the opening bracket to the last closing bracket, and is not empty.
\<close>

definition sectcre_match :: "string \<Rightarrow> string option" where
  "sectcre_match v =
     (case v of
        [] \<Rightarrow> None
      | c # rest \<Rightarrow>
          if c \<noteq> CHR ''['' then None
          else (case dropWhile (\<lambda>x. x \<noteq> CHR '']'') (rev rest) of
                  [] \<Rightarrow> None
                | _ # h \<Rightarrow> if h = [] then None else Some (rev h)))"

text \<open>
  \<^verbatim>\<open>_optcre.match(value)\<close> for \<^verbatim>\<open>(?P<option>.*?)\s*(?P<vi>=|:)\s*(?P<value>.*)$\<close>:
  the lazy option group ends before the white space that precedes the first delimiter,
  and the value group starts after the white space that follows it.
\<close>

definition is_delimiter :: "char \<Rightarrow> bool" where
  "is_delimiter c = (c = CHR ''='' \<or> c = CHR '':'')"

definition optcre_match :: "string \<Rightarrow> (string \<times> string) option" where
  "optcre_match v =
     (case dropWhile (\<lambda>c. \<not> is_delimiter c) v of
        [] \<Rightarrow> None
      | _ # after \<Rightarrow> Some (rstrip (takeWhile (\<lambda>c. \<not> is_delimiter c) v), lstrip after))"

text \<open>\<^verbatim>\<open>cursect[optname].append(v)\<close> and \<^verbatim>\<open>cursect[optname] = [v]\<close>.\<close>

definition append_value :: "read_state \<Rightarrow> string \<Rightarrow> string \<Rightarrow> string \<Rightarrow> read_state" where
  "append_value st sname oname v =
     st\<lparr>r_sections :=
       AList.map_entry sname (AList.map_entry oname (\<lambda>vs. vs @ [v])) (r_sections st)\<rparr>"

definition assign_value :: "read_state \<Rightarrow> string \<Rightarrow> string \<Rightarrow> string \<Rightarrow> read_state" where
  "assign_value st sname oname v =
     st\<lparr>r_sections := AList.map_entry sname (AList.update oname [v]) (r_sections st)\<rparr>"

text \<open>One turn of the loop of \<^verbatim>\<open>_read\<close> (no inline comment prefixes, strict, empty lines
  in values, values required).\<close>

definition read_line :: "read_state \<Rightarrow> string \<Rightarrow> exn + read_state" where
  "read_line st line =
     (if (if is_comment_line line then [] else strip line) = [] then
        (case (r_sectname st, r_optname st) of
           (Some sname, Some oname) \<Rightarrow>
             if \<not> is_comment_line line \<and> oname \<noteq> [] then Inr (append_value st sname oname [])
             else Inr st
         | _ \<Rightarrow> Inr st)
      else if r_sectname st \<noteq> None \<and> truthy (r_optname st)
              \<and> first_nonspace line > r_indent_level st then
        Inr (append_value st (the (r_sectname st)) (the (r_optname st)) (strip line))
      else
        (case sectcre_match (strip line) of
           Some name \<Rightarrow>
             if name \<in> set (map fst (r_sections st)) then
               (if (name, None) \<in> set (r_elements_added st) then Inl (DuplicateSectionError name)
                else Inr (st\<lparr>r_indent_level := first_nonspace line,
                              r_sectname := Some name,
                              r_elements_added := (name, None) # r_elements_added st,
                              r_optname := None\<rparr>))
             else
               Inr (st\<lparr>r_indent_level := first_nonspace line,
                        r_sections := r_sections st @ [(name, [])],
                        r_sectname := Some name,
                        r_elements_added := (name, None) # r_elements_added st,
                        r_optname := None\<rparr>)
         | None \<Rightarrow>
             (case r_sectname st of
                None \<Rightarrow> Inl MissingSectionHeaderError
              | Some sname \<Rightarrow>
                  (case optcre_match (strip line) of
                     None \<Rightarrow> Inr (st\<lparr>r_indent_level := first_nonspace line, r_e := True\<rparr>)
                   | Some (opt, optval) \<Rightarrow>
                       if (sname, Some (optionxform (rstrip opt))) \<in> set (r_elements_added st)
                       then Inl (DuplicateOptionError sname (optionxform (rstrip opt)))
                       else
                         Inr (assign_value
                                (st\<lparr>r_indent_level := first_nonspace line,
                                    r_e := (r_e st \<or> opt = []),
                                    r_optname := Some (optionxform (rstrip opt)),
                                    r_elements_added :=
                                      (sname, Some (optionxform (rstrip opt))) # r_elements_added st\<rparr>)
                                sname (optionxform (rstrip opt)) (strip optval))))))"

fun read_lines :: "read_state \<Rightarrow> string list \<Rightarrow> exn + read_state" where
  "read_lines st [] = Inr st"
| "read_lines st (l # ls) =
     (case read_line st l of Inl x \<Rightarrow> Inl x | Inr st' \<Rightarrow> read_lines st' ls)"

text \<open>\<^verbatim>\<open>_join_multiline_values\<close>: \<^verbatim>\<open>'\n'.join(val).rstrip()\<close> for every option.\<close>

definition join_multiline_values ::
    "(string \<times> (string \<times> string list) list) list \<Rightarrow> (string \<times> profile) list" where
  "join_multiline_values secs =
     map (\<lambda>(name, options). (name, map (\<lambda>(k, val). (k, rstrip (join [CHR 0x0A] val))) options)) secs"

text \<open>\<^verbatim>\<open>_read\<close> on a fresh parser, given the text of the file.\<close>

definition read_text :: "string \<Rightarrow> exn + store" where
  "read_text text =
     (case read_lines initial_read_state (file_lines (universal_newlines text)) of
        Inl x \<Rightarrow> Inl x
      | Inr st \<Rightarrow>
          if r_e st then Inl ParsingError
          else Inr \<lparr>defaults = [], sections = join_multiline_values (r_sections st)\<rparr>)"

text \<open>The file system, and \<^verbatim>\<open>read(filename)\<close> on a fresh parser: a file that cannot be
  opened is skipped.\<close>

type_synonym fs = "string \<rightharpoonup> string"

definition cp_read :: "fs \<Rightarrow> string \<Rightarrow> exn + store" where
  "cp_read files filename =
     (case files filename of None \<Rightarrow> Inr empty_store | Some text \<Rightarrow> read_text text)"

subsection \<open>Timestamps\<close>

text \<open>\<^verbatim>\<open>datetime.isoformat()\<close>: \<^verbatim>\<open>YYYY-MM-DDTHH:MM:SS\<close>, the microseconds when they
  are not zero, and the offset from UTC of an aware value.\<close>

definition format_offset :: "int option \<Rightarrow> string" where
  "format_offset off =
     (case off of
        None \<Rightarrow> []
      | Some secs \<Rightarrow>
          (if secs < 0 then ''-'' else ''+'') @
          zero_pad 2 (nat \<bar>secs\<bar> div 3600) @ '':'' @ zero_pad 2 (nat \<bar>secs\<bar> mod 3600 div 60) @
          (if nat \<bar>secs\<bar> mod 60 \<noteq> 0 then '':'' @ zero_pad 2 (nat \<bar>secs\<bar> mod 60) else []))"

definition isoformat :: "datetime \<Rightarrow> string" where
  "isoformat d =
     zero_pad 4 (year d) @ ''-'' @ zero_pad 2 (month d) @ ''-'' @ zero_pad 2 (day d) @ ''T'' @
     zero_pad 2 (hour d) @ '':'' @ zero_pad 2 (minute d) @ '':'' @ zero_pad 2 (second d) @
     (if microsecond d \<noteq> 0 then ''.'' @ zero_pad 6 (microsecond d) else []) @
     format_offset (utcoffset d)"

subsection \<open>update_credentials_file\<close>

text \<open>The parsed command line (\<^verbatim>\<open>parse_args\<close> belongs to the command-line layer).\<close>

record args =
  version :: bool
  role_to_assume :: "string option"
  aws_credentials :: string
  duration :: int
  identity_profile :: string
  serial_number :: "string option"
  target_profile :: string
  role_session_name :: string
  token_code :: "string option"

text \<open>The loop of lines 192-193.\<close>

fun set_all :: "store \<Rightarrow> string \<Rightarrow> profile \<Rightarrow> exn + store" where
  "set_all cp section [] = Inr cp"
| "set_all cp section ((k, v) # kvs) =
     (case set_option cp section k v of
        Inl x \<Rightarrow> Inl x
      | Inr cp' \<Rightarrow> set_all cp' section kvs)"

text \<open>
  Lines 202-205: open the temporary file for writing, write the store to it, close it,
  rename it over the credentials file. The result comes with the states the file system
  goes through, the first one being the state before. A rename replaces the target in
  one step. \<open>WriteFails n\<close> stops the writing after \<open>n\<close> characters.
\<close>

definition write_and_rename :: "fault \<Rightarrow> string \<Rightarrow> string \<Rightarrow> fs \<Rightarrow> (exn + unit) \<times> fs list" where
  "write_and_rename flt path text files =
     (case flt of
        OpenFails \<Rightarrow> (Inl OSError, [files])
      | WriteFails n \<Rightarrow>
          (Inl OSError,
           [files, files(path @ ''.tmp'' \<mapsto> []), files(path @ ''.tmp'' \<mapsto> take n text)])
      | RenameFails \<Rightarrow>
          (Inl OSError,
           [files, files(path @ ''.tmp'' \<mapsto> []), files(path @ ''.tmp'' \<mapsto> text)])
      | NoFault \<Rightarrow>
          (Inr (),
           [files, files(path @ ''.tmp'' \<mapsto> []), files(path @ ''.tmp'' \<mapsto> text),
            (files(path @ ''.tmp'' := None))(path \<mapsto> text)]))"

text \<open>Lines 189-201: the store after the target profile has been rebuilt.\<close>

definition rebuild_target :: "args \<Rightarrow> store \<Rightarrow> credentials \<Rightarrow> exn + store" where
  "rebuild_target a cp temporary_credentials =
     (case add_section (remove_section cp (target_profile a)) (target_profile a) of
        Inl x \<Rightarrow> Inl x
      | Inr cp1 \<Rightarrow>
     (case items cp1 (identity_profile a) of
        Inl x \<Rightarrow> Inl x
      | Inr kvs \<Rightarrow>
     (case set_all cp1 (target_profile a) kvs of
        Inl x \<Rightarrow> Inl x
      | Inr cp2 \<Rightarrow>
     (case set_option cp2 (target_profile a) ''aws_access_key_id''
             (AccessKeyId temporary_credentials) of
        Inl x \<Rightarrow> Inl x
      | Inr cp3 \<Rightarrow>
     (case set_option cp3 (target_profile a) ''aws_secret_access_key''
             (SecretAccessKey temporary_credentials) of
        Inl x \<Rightarrow> Inl x
      | Inr cp4 \<Rightarrow>
     (case set_option cp4 (target_profile a) ''aws_session_token''
             (SessionToken temporary_credentials) of
        Inl x \<Rightarrow> Inl x
      | Inr cp5 \<Rightarrow>
          set_option cp5 (target_profile a) ''awsmfa_expiration''
            (isoformat (Expiration temporary_credentials))))))))"

text \<open>
  The whole function: the store it leaves (or the exception), and the states of the
  file system, the first one being the state before the call.
\<close>

definition update_credentials_file ::
    "fault \<Rightarrow> args \<Rightarrow> store \<Rightarrow> credentials \<Rightarrow> fs \<Rightarrow> (exn + store) \<times> fs list" where
  "update_credentials_file flt a cp temporary_credentials files =
     (case rebuild_target a cp temporary_credentials of
        Inl x \<Rightarrow> (Inl x, [files])
      | Inr cp' \<Rightarrow>
          (case write_and_rename flt (aws_credentials a) (cp_write cp') files of
             (Inl x, history) \<Rightarrow> (Inl x, history)
           | (Inr _, history) \<Rightarrow> (Inr cp', history)))"

subsection \<open>main\<close>

datatype outcome = Returned nat | Raised exn

definition OK :: nat where
  "OK = 0"

definition USER_RECOVERABLE_ERROR :: nat where
  "USER_RECOVERABLE_ERROR = 1"

text \<open>
  Lines 46-48, for a token code that was not given: prompt until an answer has six
  characters. Each prompt is logged; at the end of the input \<^verbatim>\<open>getpass\<close> raises.
\<close>

fun prompt_token_code :: "string list \<Rightarrow> (exn + string) \<times> event list" where
  "prompt_token_code [] = (Inl EOFError, [Getpass ''MFA Token Code: ''])"
| "prompt_token_code (x # xs) =
     (if length x = 6 then (Inr x, [Getpass ''MFA Token Code: ''])
      else (case prompt_token_code xs of (r, evs) \<Rightarrow> (r, Getpass ''MFA Token Code: '' # evs)))"

definition obtain_token_code :: "args \<Rightarrow> env \<Rightarrow> (exn + string) \<times> event list" where
  "obtain_token_code a w =
     (case token_code a of
        None \<Rightarrow> prompt_token_code (getpass_input w)
      | Some t \<Rightarrow> (Inr t, []))"

text \<open>Lines 52-63: the request sent to STS.\<close>

definition sts_request :: "args \<Rightarrow> string \<Rightarrow> string \<Rightarrow> api_call" where
  "sts_request a serial code =
     (if truthy (role_to_assume a) then
        AssumeRole (min (duration a) 3600) (the (role_to_assume a)) (role_session_name a) serial code
      else GetSessionToken (duration a) serial code)"

text \<open>Lines 50-74, once the serial number and the token code are known.\<close>

definition request_and_store ::
    "env \<Rightarrow> args \<Rightarrow> store \<Rightarrow> string \<Rightarrow> string \<Rightarrow> fs \<Rightarrow> outcome \<times> fs \<times> event list" where
  "request_and_store w a cp serial code files =
     (case sts w (sts_request a serial code) of
        Inl (ClientError c text) \<Rightarrow>
          if c = ''AccessDenied'' then
            (Returned USER_RECOVERABLE_ERROR, files,
             [ApiCall (sts_request a serial code), Stderr text])
          else (Raised (ClientError c text), files, [ApiCall (sts_request a serial code)])
      | Inl x \<Rightarrow> (Raised x, files, [ApiCall (sts_request a serial code)])
      | Inr temporary_credentials \<Rightarrow>
          (case utcoffset (Expiration temporary_credentials) of
             None \<Rightarrow> (Raised TypeError, files, [ApiCall (sts_request a serial code)])
           | Some _ \<Rightarrow>
               (case update_credentials_file (io_fault w) a cp temporary_credentials files of
                  (Inl x, history) \<Rightarrow>
                    (Raised x, last history,
                     [ApiCall (sts_request a serial code),
                      StdoutRemaining (Expiration temporary_credentials) (now w)])
                | (Inr _, history) \<Rightarrow>
                    (Returned OK, last history,
                     [ApiCall (sts_request a serial code),
                      StdoutRemaining (Expiration temporary_credentials) (now w)]))))"

text \<open>
  \<^verbatim>\<open>main\<close>: how the process ends, the file system it leaves, and what it called and
  printed. The session objects of lines 31-33 are the environment; creating them
  raises \<^verbatim>\<open>ProfileNotFound\<close> when the identity profile is not among the available
  ones.
\<close>

definition main :: "env \<Rightarrow> args \<Rightarrow> fs \<Rightarrow> outcome \<times> fs \<times> event list" where
  "main w a files =
     (if version a then (Returned OK, files, [Stdout (VERSION w)])
      else
        case cp_read files (aws_credentials a) of
          Inl x \<Rightarrow> (Raised x, files, [])
        | Inr cp \<Rightarrow>
            if identity_profile a \<notin> set (available_profiles w) then
              (Returned USER_RECOVERABLE_ERROR, files,
               [Stderr (''The config profile ('' @ identity_profile a @ '') could not be found''),
                Stdout (''Available profiles: '' @ join '', '' (sort (available_profiles w)))])
            else
              (case find_mfa_for_user (serial_number a) w of
                 (Inl x, evs) \<Rightarrow> (Raised x, files, evs)
               | (Inr serial, evs) \<Rightarrow>
                   if \<not> truthy serial then
                     (Returned USER_RECOVERABLE_ERROR, files,
                      evs @ [Stderr ''There are no MFA devices associated with this user.''])
                   else
                     (case obtain_token_code a w of
                        (Inl x, evs') \<Rightarrow> (Raised x, files, evs @ evs')
                      | (Inr code, evs') \<Rightarrow>
                          (case request_and_store w a cp (the serial) code files of
                             (r, files', evs2) \<Rightarrow> (r, files', evs @ evs' @ evs2)))))"

subsection \<open>Dictionaries as the parser builds them\<close>

text \<open>The option names of a section are distinct and in the form \<^verbatim>\<open>optionxform\<close> gives
  them; \<open>keys_ok\<close> says so for every section.\<close>

definition options_ok :: "(string \<times> 'v) list \<Rightarrow> bool" where
  "options_ok opts = (distinct (map fst opts) \<and> list_all (\<lambda>k. optionxform k = k) (map fst opts))"

definition keys_ok :: "('k \<times> (string \<times> 'v) list) list \<Rightarrow> bool" where
  "keys_ok secs = list_all (\<lambda>s. options_ok (snd s)) secs"

subsection \<open>Stores that a file reproduces\<close>

text \<open>
  The stores for which writing and reading back is shown to be the identity: no default
  options; section names that are distinct, not empty and without line breaks; in each
  section option names that are distinct, not empty, without line breaks or delimiters,
  without white space at either end, unchanged by \<^verbatim>\<open>optionxform\<close> and not starting
  with a comment prefix; values without carriage return and without white space at the
  end, whose lines (\<^verbatim>\<open>value.split('\n')\<close>) have no white space at either end and, but for
  the first one, do not start with a comment prefix; and options whose first line is not
  read as a section header.
\<close>

definition no_linebreak :: "string \<Rightarrow> bool" where
  "no_linebreak s = (CHR 0x0A \<notin> set s \<and> CHR 0x0D \<notin> set s)"

definition stripped :: "string \<Rightarrow> bool" where
  "stripped s = (s = [] \<or> (\<not> isspace (hd s) \<and> \<not> isspace (last s)))"

fun split_lines :: "string \<Rightarrow> string list" where
  "split_lines [] = [[]]"
| "split_lines (c # cs) =
     (if c = CHR 0x0A then [] # split_lines cs
      else (case split_lines cs of [] \<Rightarrow> [[c]] | l # ls \<Rightarrow> (c # l) # ls))"

definition header_line :: "string \<Rightarrow> string" where
  "header_line n = ''['' @ n @ '']''"

definition option_line :: "string \<times> string \<Rightarrow> string" where
  "option_line kv = fst kv @ '' = '' @ snd kv"

definition option_lines :: "string \<times> string \<Rightarrow> string list" where
  "option_lines kv =
     option_line (fst kv, hd (split_lines (snd kv))) #
     map (\<lambda>l. CHR 0x09 # l) (tl (split_lines (snd kv)))"

definition wf_section_name :: "string \<Rightarrow> bool" where
  "wf_section_name n = (n \<noteq> [] \<and> no_linebreak n)"

definition wf_option_name :: "string \<Rightarrow> bool" where
  "wf_option_name k =
     (k \<noteq> [] \<and> no_linebreak k \<and> stripped k \<and> optionxform k = k \<and>
      list_all (\<lambda>c. \<not> is_delimiter c) k \<and> \<not> is_comment_line k)"

definition wf_value :: "string \<Rightarrow> bool" where
  "wf_value v =
     (CHR 0x0D \<notin> set v \<and> rstrip v = v \<and> list_all stripped (split_lines v) \<and>
      list_all (\<lambda>l. \<not> is_comment_line l) (tl (split_lines v)))"

definition wf_option :: "string \<times> string \<Rightarrow> bool" where
  "wf_option kv =
     (wf_option_name (fst kv) \<and> wf_value (snd kv) \<and>
      sectcre_match (strip (option_line (fst kv, hd (split_lines (snd kv))))) = None)"

definition wf_options :: "profile \<Rightarrow> bool" where
  "wf_options opts = (distinct (map fst opts) \<and> list_all wf_option opts)"

definition wf_store :: "store \<Rightarrow> bool" where
  "wf_store cp =
     (defaults cp = [] \<and> distinct (map fst (sections cp)) \<and>
      list_all (\<lambda>s. wf_section_name (fst s) \<and> wf_options (snd s)) (sections cp))"

text \<open>The lines \<^verbatim>\<open>write\<close> produces: per section its header, the lines of its options
  (the first line of the value after the name, every further line after a tab) and an
  empty line; \<open>terminated\<close> is the text made of lines.\<close>

definition section_lines :: "string \<times> profile \<Rightarrow> string list" where
  "section_lines s = header_line (fst s) # concat (map option_lines (snd s)) @ [[]]"

definition terminated :: "string list \<Rightarrow> string" where
  "terminated ls = concat (map (\<lambda>l. l @ [CHR 0x0A]) ls)"

text \<open>
  What \<^verbatim>\<open>_read\<close> holds while it reads these lines: \<open>in_section st pre n seen\<close> after
  the options \<open>seen\<close> of the section \<open>n\<close> that follows the sections \<open>pre\<close>, and
  \<open>between st pre\<close> after the empty line that ends a section, which \<^verbatim>\<open>_read\<close>
  appends to the value of the last option (\<open>raw_options\<close>).
\<close>

definition single :: "string \<times> string \<Rightarrow> string \<times> string list" where
  "single kv = (fst kv, split_lines (snd kv))"

definition raw_options :: "profile \<Rightarrow> (string \<times> string list) list" where
  "raw_options opts =
     (if opts = [] then []
      else map single (butlast opts) @ [(fst (last opts), split_lines (snd (last opts)) @ [[]])])"

definition in_section ::
    "read_state \<Rightarrow> (string \<times> (string \<times> string list) list) list \<Rightarrow> string \<Rightarrow> profile \<Rightarrow> bool" where
  "in_section st pre n seen =
     (r_sections st = pre @ [(n, map single seen)] \<and> r_sectname st = Some n \<and>
      r_optname st = (if seen = [] then None else Some (fst (last seen))) \<and>
      r_indent_level st = 0 \<and> \<not> r_e st \<and>
      (\<forall>(m, x) \<in> set (r_elements_added st).
          m \<in> fst ` set pre \<or> (m = n \<and> (x = None \<or> x \<in> Some ` fst ` set seen))))"

definition between :: "read_state \<Rightarrow> (string \<times> (string \<times> string list) list) list \<Rightarrow> bool" where
  "between st pre =
     (r_sections st = pre \<and> \<not> r_e st \<and> (\<forall>(m, x) \<in> set (r_elements_added st). m \<in> fst ` set pre))"

subsection \<open>Paths\<close>

text \<open>\<^verbatim>\<open>os.path.dirname(p)\<close> of \<^verbatim>\<open>posixpath\<close>: the directory a path lies in.\<close>

definition dirname :: "string \<Rightarrow> string" where
  "dirname p =
     (let head = rev (dropWhile (\<lambda>c. c \<noteq> CHR ''/'') (rev p))
      in if head \<noteq> [] \<and> \<not> list_all (\<lambda>c. c = CHR ''/'') head
         then rev (dropWhile (\<lambda>c. c = CHR ''/'') (rev head)) else head)"

subsection \<open>Reading the log\<close>

text \<open>The requests in a log, in order, and those of them that go to STS.\<close>

fun api_calls :: "event list \<Rightarrow> api_call list" where
  "api_calls [] = []"
| "api_calls (ApiCall c # evs) = c # api_calls evs"
| "api_calls (_ # evs) = api_calls evs"

definition is_sts_call :: "api_call \<Rightarrow> bool" where
  "is_sts_call c =
     (case c of AssumeRole _ _ _ _ _ \<Rightarrow> True | GetSessionToken _ _ _ \<Rightarrow> True | _ \<Rightarrow> False)"

definition sts_calls :: "event list \<Rightarrow> api_call list" where
  "sts_calls evs = filter is_sts_call (api_calls evs)"

subsection \<open>Sample inputs\<close>

text \<open>A standard user with two MFA devices, the account's root user, and answers of
  the service, used to instantiate the theorems below.\<close>

definition alice :: iam_user where
  "alice = \<lparr>Arn = ''arn:aws:iam::123456789012:user/alice'', UserName = Some ''alice''\<rparr>"

definition root_user :: iam_user where
  "root_user = \<lparr>Arn = ''arn:aws:iam::123456789012:root'', UserName = None\<rparr>"

definition two_devices :: list_mfa_devices_response where
  "two_devices =
     \<lparr>MFADevices = [\<lparr>SerialNumber = ''arn:aws:iam::123456789012:mfa/phone''\<rparr>,
                     \<lparr>SerialNumber = ''arn:aws:iam::123456789012:mfa/key''\<rparr>],
      IsTruncated = False, Marker = None\<rparr>"

definition no_devices :: list_mfa_devices_response where
  "no_devices = \<lparr>MFADevices = [], IsTruncated = False, Marker = None\<rparr>"

definition sample_credentials :: credentials where
  "sample_credentials =
     \<lparr>AccessKeyId = ''ASIAEXAMPLE'', SecretAccessKey = ''secret'', SessionToken = ''token'',
      Expiration = \<lparr>year = 2024, month = 5, day = 17, hour = 9, minute = 30, second = 0,
                     microsecond = 0, utcoffset = Some 0\<rparr>\<rparr>"

definition sample_env :: env where
  "sample_env =
     \<lparr>VERSION = ''1.0'',
      available_profiles = [''identity'', ''default''],
      iam_get_user = Inr alice,
      iam_current_user_mfa_devices = Inr [],
      iam_list_mfa_devices = (\<lambda>u. Inr two_devices),
      sts = (\<lambda>c. Inr sample_credentials),
      getpass_input = [''12345'', ''123456''],
      now = \<lparr>year = 2024, month = 5, day = 17, hour = 3, minute = 30, second = 0,
              microsecond = 0, utcoffset = Some 0\<rparr>,
      io_fault = NoFault\<rparr>"

definition sample_args :: args where
  "sample_args =
     \<lparr>version = False, role_to_assume = None, aws_credentials = ''/home/alice/.aws/credentials'',
      duration = 21600, identity_profile = ''identity'', serial_number = None,
      target_profile = ''default'', role_session_name = ''awsmfa_20240517T033000'',
      token_code = Some ''123456''\<rparr>"

definition sample_store :: store where
  "sample_store =
     \<lparr>defaults = [],
      sections =
        [(''default'', [(''aws_access_key_id'', ''stale''), (''output'', ''json'')]),
         (''identity'', [(''aws_access_key_id'', ''AKIAEXAMPLE''),
                         (''aws_secret_access_key'', ''long-lived''),
                         (''region'', ''us-east-1'')]),
         (''work'', [(''region'', ''eu-west-1'')])]\<rparr>"

definition nested_store :: store where
  "nested_store =
     \<lparr>defaults = [],
      sections =
        [(''identity'',
          [(''aws_access_key_id'', ''AKIAEXAMPLE''),
           (''region'', ''us-east-1''),
           (''s3'', [CHR 0x0A] @ ''max_concurrent_requests = 20'' @ [CHR 0x0A] @ ''addressing_style = path''),
           (''[note'', ''kept'')])]\<rparr>"

text \<open>The sample store after the rotation of the sample run.\<close>

definition sample_rotated :: store where
  "sample_rotated =
     \<lparr>defaults = [],
      sections =
        [(''identity'', [(''aws_access_key_id'', ''AKIAEXAMPLE''),
                         (''aws_secret_access_key'', ''long-lived''),
                         (''region'', ''us-east-1'')]),
         (''work'', [(''region'', ''eu-west-1'')]),
         (''default'', [(''aws_access_key_id'', ''ASIAEXAMPLE''),
                        (''aws_secret_access_key'', ''secret''),
                        (''region'', ''us-east-1''),
                        (''aws_session_token'', ''token''),
                        (''awsmfa_expiration'', ''2024-05-17T09:30:00+00:00'')])]\<rparr>"

definition sample_files :: fs where
  "sample_files = [''/home/alice/.aws/credentials'' \<mapsto> cp_write sample_store]"

section \<open>Properties\<close>

subsection \<open>Logs\<close>

lemma api_calls_append: "api_calls (xs @ ys) = api_calls xs @ api_calls ys"
  by (induction xs rule: api_calls.induct) auto

lemma sts_calls_append: "sts_calls (xs @ ys) = sts_calls xs @ sts_calls ys"
  by (simp add: sts_calls_def api_calls_append)

lemma pick_serial_events:
  "pick_serial serials n evs = (r, evs') \<Longrightarrow> api_calls evs' = api_calls evs"
  by (auto simp: pick_serial_def api_calls_append split: list.splits if_splits sum.splits)

lemma pick_serial_calls: "api_calls (snd (pick_serial serials n evs)) = api_calls evs"
  using pick_serial_events by (metis prod.collapse)

lemma find_mfa_no_sts: "sts_calls (snd (find_mfa_for_user s w)) = []"
  unfolding find_mfa_for_user_def
  by (auto simp: sts_calls_def is_sts_call_def pick_serial_calls split: sum.splits option.splits)

lemma prompt_no_calls: "api_calls (snd (prompt_token_code xs)) = []"
  by (induction xs) (auto split: prod.splits)

lemma obtain_no_calls: "api_calls (snd (obtain_token_code a w)) = []"
  by (simp add: obtain_token_code_def prompt_no_calls split: option.splits)

subsection \<open>Device resolution\<close>

lemma alice_not_root: "\<not> endswith (Arn alice) '':root''"
  by (simp add: endswith_def alice_def)

lemma root_is_root: "endswith (Arn root_user) '':root''"
  by (simp add: endswith_def root_user_def)

text \<open>
  Claim C6. Given a non-empty explicit serial number, \<open>find_mfa_for_user\<close> returns that
  serial number unchanged, and its log is empty: no request is sent to the identity
  service (and nothing is printed).
\<close>

theorem find_mfa_explicit_serial:
  "s \<noteq> [] \<Longrightarrow> find_mfa_for_user (Some s) w = (Inr (Some s), [])"
  by (simp add: find_mfa_for_user_def truthy_def)

theorem find_mfa_explicit_serial_witness:
  "''arn:aws:iam::123456789012:mfa/phone'' \<noteq> [] \<and>
   find_mfa_for_user (Some ''arn:aws:iam::123456789012:mfa/phone'') sample_env
     = (Inr (Some ''arn:aws:iam::123456789012:mfa/phone''), [])"
  using find_mfa_explicit_serial [of "''arn:aws:iam::123456789012:mfa/phone''" sample_env]
  by simp

text \<open>
  Claim C9. Without an explicit serial number (none, or an empty one), and when
  \<^verbatim>\<open>get_user\<close> answers with a user record, the requests sent are \<^verbatim>\<open>GetUser\<close> followed by
  one device listing: the listing of the current user (no user name in the request) when
  the user's ARN ends with \<^verbatim>\<open>:root\<close>, and otherwise the user-scoped listing with the
  \<^verbatim>\<open>UserName\<close> of the user record.
\<close>

theorem find_mfa_branches:
  assumes "\<not> truthy explicit" and "iam_get_user w = Inr user"
  shows "(endswith (Arn user) '':root'' \<longrightarrow>
            api_calls (snd (find_mfa_for_user explicit w)) = [GetUser, ListMFADevices None]) \<and>
         (\<not> endswith (Arn user) '':root'' \<longrightarrow> UserName user = Some username \<longrightarrow>
            api_calls (snd (find_mfa_for_user explicit w))
              = [GetUser, ListMFADevices (Some username)])"
  using assms
  by (auto simp: find_mfa_for_user_def pick_serial_calls split: sum.splits)

theorem find_mfa_branches_witness:
  "api_calls (snd (find_mfa_for_user None (sample_env\<lparr>iam_get_user := Inr root_user\<rparr>)))
     = [GetUser, ListMFADevices None] \<and>
   api_calls (snd (find_mfa_for_user None sample_env)) = [GetUser, ListMFADevices (Some ''alice'')]"
proof -
  have t: "\<not> truthy None" by (simp add: truthy_def)
  have r: "iam_get_user (sample_env\<lparr>iam_get_user := Inr root_user\<rparr>) = Inr root_user" by simp
  have u: "iam_get_user sample_env = Inr alice" by (simp add: sample_env_def)
  have n: "UserName alice = Some ''alice''" by (simp add: alice_def)
  from find_mfa_branches [OF t r, of "''x''"] root_is_root
       find_mfa_branches [OF t u, of "''alice''"] alice_not_root n
  show ?thesis by simp
qed

text \<open>
  Claim C8 (the code departs from it). With more than one device the warning is built
  from \<^verbatim>\<open>len(devices)\<close>, not from the number of serial numbers. For the standard user
  \<open>alice\<close>, whose listing holds two devices, \<open>devices\<close> is the response dictionary with
  its three keys: the first device is returned, and the warning reports 3 devices. For
  the root user with two devices, \<open>devices\<close> is the resource collection, which has no
  length: the call ends with a \<^verbatim>\<open>TypeError\<close> instead of a serial number.
\<close>

theorem find_mfa_two_devices:
  "find_mfa_for_user None sample_env
     = (Inr (Some ''arn:aws:iam::123456789012:mfa/phone''),
        [ApiCall GetUser, ApiCall (ListMFADevices (Some ''alice'')),
         Stderr ''Warning: user has 3 MFA devices. Using the first.'']) \<and>
   length (MFADevices two_devices) = 2 \<and>
   find_mfa_for_user None
       (sample_env\<lparr>iam_get_user := Inr root_user,
                   iam_current_user_mfa_devices :=
                     Inr [''arn:aws:iam::123456789012:mfa/root-a'',
                          ''arn:aws:iam::123456789012:mfa/root-b'']\<rparr>)
     = (Inl TypeError, [ApiCall GetUser, ApiCall (ListMFADevices None)])"
  by code_simp

subsection \<open>main\<close>

lemma find_mfa_zero_devices:
  assumes "\<not> truthy explicit" and "iam_get_user w = Inr user"
    and "(endswith (Arn user) '':root'' \<and> iam_current_user_mfa_devices w = Inr []) \<or>
         (\<not> endswith (Arn user) '':root'' \<and> UserName user = Some username \<and>
          iam_list_mfa_devices w username = Inr r \<and> MFADevices r = [])"
  shows "find_mfa_for_user explicit w
           = (Inr None, [ApiCall GetUser,
                ApiCall (ListMFADevices (if endswith (Arn user) '':root'' then None else Some username))])"
  using assms by (auto simp: find_mfa_for_user_def pick_serial_def)

text \<open>
  Claim C7. In a run that reaches device resolution (no \<^verbatim>\<open>--version\<close>, the credentials
  file parsed, the identity profile known) without an explicit serial number, when the
  device listing of the user answers with no device: resolution yields \<^verbatim>\<open>None\<close>,
  \<open>main\<close> returns the user-recoverable status 1, its log holds no request to STS, and
  the file system is the one before the run.
\<close>

theorem no_device_exits_recoverable:
  assumes "\<not> version a" and "cp_read files (aws_credentials a) = Inr cp"
    and "identity_profile a \<in> set (available_profiles w)"
    and "\<not> truthy (serial_number a)" and "iam_get_user w = Inr user"
    and "(endswith (Arn user) '':root'' \<and> iam_current_user_mfa_devices w = Inr []) \<or>
         (\<not> endswith (Arn user) '':root'' \<and> UserName user = Some username \<and>
          iam_list_mfa_devices w username = Inr r \<and> MFADevices r = [])"
  shows "fst (find_mfa_for_user (serial_number a) w) = Inr None \<and>
         (\<exists>evs. main w a files = (Returned USER_RECOVERABLE_ERROR, files, evs) \<and>
                sts_calls evs = []) \<and>
         USER_RECOVERABLE_ERROR = 1"
proof -
  note z = find_mfa_zero_devices [OF assms(4,5,6)]
  have "main w a files = (Returned USER_RECOVERABLE_ERROR, files,
           [ApiCall GetUser,
            ApiCall (ListMFADevices (if endswith (Arn user) '':root'' then None else Some username)),
            Stderr ''There are no MFA devices associated with this user.''])"
    using assms(1,2,3) by (simp add: main_def z truthy_def)
  then show ?thesis
    by (simp add: z sts_calls_def is_sts_call_def USER_RECOVERABLE_ERROR_def)
qed

lemma sample_read: "cp_read sample_files (aws_credentials sample_args) = Inr sample_store"
  by code_simp

theorem no_device_exits_recoverable_witness:
  "fst (find_mfa_for_user None (sample_env\<lparr>iam_list_mfa_devices := (\<lambda>u. Inr no_devices)\<rparr>)) = Inr None \<and>
   (\<exists>evs. main (sample_env\<lparr>iam_list_mfa_devices := (\<lambda>u. Inr no_devices)\<rparr>) sample_args sample_files
            = (Returned USER_RECOVERABLE_ERROR, sample_files, evs) \<and> sts_calls evs = [])"
proof -
  let ?w = "sample_env\<lparr>iam_list_mfa_devices := (\<lambda>u. Inr no_devices)\<rparr>"
  have 1: "\<not> version sample_args" by (simp add: sample_args_def)
  have 3: "identity_profile sample_args \<in> set (available_profiles ?w)"
    by (simp add: sample_args_def sample_env_def)
  have 4: "\<not> truthy (serial_number sample_args)" by (simp add: sample_args_def truthy_def)
  have 5: "iam_get_user ?w = Inr alice" by (simp add: sample_env_def)
  have 6: "(endswith (Arn alice) '':root'' \<and> iam_current_user_mfa_devices ?w = Inr []) \<or>
         (\<not> endswith (Arn alice) '':root'' \<and> UserName alice = Some ''alice'' \<and>
          iam_list_mfa_devices ?w ''alice'' = Inr no_devices \<and> MFADevices no_devices = [])"
    using alice_not_root by (simp add: alice_def no_devices_def)
  have s: "serial_number sample_args = None" by (simp add: sample_args_def)
  from no_device_exits_recoverable [OF 1 sample_read 3 4 5 6]
  show ?thesis by (simp add: s)
qed


lemma main_reaches_sts:
  assumes "\<not> version a" and "cp_read files (aws_credentials a) = Inr cp"
    and "identity_profile a \<in> set (available_profiles w)"
    and "find_mfa_for_user (serial_number a) w = (Inr (Some serial), evs1)" and "serial \<noteq> []"
    and "obtain_token_code a w = (Inr code, evs2)"
  shows "main w a files =
           (case request_and_store w a cp serial code files of
              (r, files', evs3) \<Rightarrow> (r, files', evs1 @ evs2 @ evs3))"
  using assms by (simp add: main_def truthy_def)

lemma request_and_store_calls:
  "api_calls (snd (snd (request_and_store w a cp serial code files))) = [sts_request a serial code]"
  by (auto simp: request_and_store_def split: sum.splits exn.splits option.splits prod.splits)

lemma sts_request_is_sts: "is_sts_call (sts_request a serial code)"
  by (simp add: sts_request_def is_sts_call_def)

text \<open>
  Claim C1. In a run that reaches the request to STS (a serial number \<open>serial\<close> resolved,
  a token code \<open>code\<close> obtained), exactly one request goes to STS: with a role ARN
  configured it is \<^verbatim>\<open>AssumeRole\<close> with the duration \<open>min (duration a) 3600\<close>, and without
  one it is \<^verbatim>\<open>GetSessionToken\<close> with the requested duration itself.
\<close>

theorem sts_request_duration:
  assumes "\<not> version a" and "cp_read files (aws_credentials a) = Inr cp"
    and "identity_profile a \<in> set (available_profiles w)"
    and "find_mfa_for_user (serial_number a) w = (Inr (Some serial), evs1)" and "serial \<noteq> []"
    and "obtain_token_code a w = (Inr code, evs2)"
  shows "sts_calls (snd (snd (main w a files))) =
           [if truthy (role_to_assume a)
            then AssumeRole (min (duration a) 3600) (the (role_to_assume a)) (role_session_name a)
                   serial code
            else GetSessionToken (duration a) serial code]"
proof -
  have e1: "sts_calls evs1 = []"
    using find_mfa_no_sts [of "serial_number a" w] assms(4) by simp
  have e2: "sts_calls evs2 = []"
    using obtain_no_calls [of a w] assms(6) by (simp add: sts_calls_def)
  have e3: "sts_calls (snd (snd (request_and_store w a cp serial code files)))
              = [sts_request a serial code]"
    by (simp add: sts_calls_def request_and_store_calls sts_request_is_sts)
  have "sts_calls (snd (snd (main w a files))) = [sts_request a serial code]"
    using e1 e2 e3
    by (cases "request_and_store w a cp serial code files")
       (simp add: main_reaches_sts [OF assms] sts_calls_append)
  then show ?thesis by (simp add: sts_request_def)
qed

text \<open>
  Claim C2. In a run whose request to STS raises \<open>x\<close>: when \<open>x\<close> is a \<^verbatim>\<open>ClientError\<close>
  with the code \<^verbatim>\<open>AccessDenied\<close>, \<open>main\<close> returns the user-recoverable status (which is
  not the status of success); any other exception is raised by \<open>main\<close> as it is; in both
  cases the file system is the one before the run.
\<close>

theorem sts_error_handling:
  assumes "\<not> version a" and "cp_read files (aws_credentials a) = Inr cp"
    and "identity_profile a \<in> set (available_profiles w)"
    and "find_mfa_for_user (serial_number a) w = (Inr (Some serial), evs1)" and "serial \<noteq> []"
    and "obtain_token_code a w = (Inr code, evs2)"
    and "sts w (sts_request a serial code) = Inl x"
  shows "fst (main w a files) =
           (if \<exists>text. x = ClientError ''AccessDenied'' text
            then Returned USER_RECOVERABLE_ERROR else Raised x) \<and>
         fst (snd (main w a files)) = files \<and>
         Returned USER_RECOVERABLE_ERROR \<noteq> Returned OK"
  using assms(7)
  by (auto simp: main_reaches_sts [OF assms(1-6)] request_and_store_def
      USER_RECOVERABLE_ERROR_def OK_def split: exn.splits)


theorem sts_request_duration_witness:
  "sts_calls (snd (snd (main sample_env sample_args sample_files)))
     = [GetSessionToken 21600 ''arn:aws:iam::123456789012:mfa/phone'' ''123456''] \<and>
   sts_calls (snd (snd (main sample_env
       (sample_args\<lparr>role_to_assume := Some ''arn:aws:iam::123456789012:role/admin''\<rparr>)
       sample_files)))
     = [AssumeRole 3600 ''arn:aws:iam::123456789012:role/admin'' ''awsmfa_20240517T033000''
          ''arn:aws:iam::123456789012:mfa/phone'' ''123456'']"
proof -
  let ?a = "sample_args\<lparr>role_to_assume := Some ''arn:aws:iam::123456789012:role/admin''\<rparr>"
  let ?evs = "[ApiCall GetUser, ApiCall (ListMFADevices (Some ''alice'')),
               Stderr ''Warning: user has 3 MFA devices. Using the first.'']"
  have 1: "\<not> version sample_args" "\<not> version ?a" by (simp_all add: sample_args_def)
  have 2: "cp_read sample_files (aws_credentials ?a) = Inr sample_store"
    using sample_read by simp
  have 3: "identity_profile sample_args \<in> set (available_profiles sample_env)"
          "identity_profile ?a \<in> set (available_profiles sample_env)"
    by (simp_all add: sample_args_def sample_env_def)
  have f: "find_mfa_for_user None sample_env
             = (Inr (Some ''arn:aws:iam::123456789012:mfa/phone''), ?evs)"
    by code_simp
  have 4: "find_mfa_for_user (serial_number sample_args) sample_env
             = (Inr (Some ''arn:aws:iam::123456789012:mfa/phone''), ?evs)"
          "find_mfa_for_user (serial_number ?a) sample_env
             = (Inr (Some ''arn:aws:iam::123456789012:mfa/phone''), ?evs)"
    using f by (simp_all add: sample_args_def)
  have 5: "''arn:aws:iam::123456789012:mfa/phone'' \<noteq> []" by simp
  have 6: "obtain_token_code sample_args sample_env = (Inr ''123456'', [])"
          "obtain_token_code ?a sample_env = (Inr ''123456'', [])"
    by (simp_all add: obtain_token_code_def sample_args_def)
  from sts_request_duration [OF 1(1) sample_read 3(1) 4(1) 5 6(1)]
       sts_request_duration [OF 1(2) 2 3(2) 4(2) 5 6(2)]
  show ?thesis by (simp add: truthy_def sample_args_def)
qed

theorem sts_error_handling_witness:
  "fst (main (sample_env\<lparr>sts := (\<lambda>c. Inl (ClientError ''AccessDenied'' ''denied''))\<rparr>)
          sample_args sample_files) = Returned USER_RECOVERABLE_ERROR \<and>
   fst (snd (main (sample_env\<lparr>sts := (\<lambda>c. Inl (ClientError ''AccessDenied'' ''denied''))\<rparr>)
          sample_args sample_files)) = sample_files \<and>
   fst (main (sample_env\<lparr>sts := (\<lambda>c. Inl (ClientError ''Throttling'' ''slow down''))\<rparr>)
          sample_args sample_files) = Raised (ClientError ''Throttling'' ''slow down'') \<and>
   fst (snd (main (sample_env\<lparr>sts := (\<lambda>c. Inl (ClientError ''Throttling'' ''slow down''))\<rparr>)
          sample_args sample_files)) = sample_files"
proof -
  let ?w1 = "sample_env\<lparr>sts := (\<lambda>c. Inl (ClientError ''AccessDenied'' ''denied''))\<rparr>"
  let ?w2 = "sample_env\<lparr>sts := (\<lambda>c. Inl (ClientError ''Throttling'' ''slow down''))\<rparr>"
  let ?evs = "[ApiCall GetUser, ApiCall (ListMFADevices (Some ''alice'')),
               Stderr ''Warning: user has 3 MFA devices. Using the first.'']"
  let ?serial = "''arn:aws:iam::123456789012:mfa/phone''"
  have 1: "\<not> version sample_args" by (simp add: sample_args_def)
  have 3: "identity_profile sample_args \<in> set (available_profiles ?w1)"
          "identity_profile sample_args \<in> set (available_profiles ?w2)"
    by (simp_all add: sample_args_def sample_env_def)
  have 4: "find_mfa_for_user (serial_number sample_args) ?w1 = (Inr (Some ?serial), ?evs)"
          "find_mfa_for_user (serial_number sample_args) ?w2 = (Inr (Some ?serial), ?evs)"
    by code_simp+
  have 5: "?serial \<noteq> []" by simp
  have 6: "obtain_token_code sample_args ?w1 = (Inr ''123456'', [])"
          "obtain_token_code sample_args ?w2 = (Inr ''123456'', [])"
    by (simp_all add: obtain_token_code_def sample_args_def)
  have 7: "sts ?w1 (sts_request sample_args ?serial ''123456'')
             = Inl (ClientError ''AccessDenied'' ''denied'')"
          "sts ?w2 (sts_request sample_args ?serial ''123456'')
             = Inl (ClientError ''Throttling'' ''slow down'')"
    by simp_all
  from sts_error_handling [OF 1 sample_read 3(1) 4(1) 5 6(1) 7(1)]
       sts_error_handling [OF 1 sample_read 3(2) 4(2) 5 6(2) 7(2)]
  show ?thesis by simp
qed

subsection \<open>Stores read from a file\<close>

lemma lower_char_idem: "lower_char (lower_char c) = lower_char c"
proof -
  have "of_char (char_of (of_char c + 32 :: nat)) = (of_char c + 32 :: nat)"
    if "(of_char c :: nat) \<le> 222"
    using that by simp
  then show ?thesis
    by (auto simp: lower_char_def Let_def)
qed

lemma optionxform_idem: "optionxform (optionxform s) = optionxform s"
  by (simp add: optionxform_def lower_char_idem)

lemma map_entry_keys: "map fst (AList.map_entry k f xs) = map fst xs"
  by (induction xs) auto

lemma options_ok_map_entry: "options_ok opts \<Longrightarrow> options_ok (AList.map_entry k f opts)"
  by (simp add: options_ok_def map_entry_keys)

lemma options_ok_update:
  "options_ok opts \<Longrightarrow> optionxform k = k \<Longrightarrow> options_ok (AList.update k v opts)"
  by (simp add: options_ok_def AList.distinct_update AList.update_keys)

lemma keys_ok_map_entry:
  "keys_ok secs \<Longrightarrow> (\<And>opts. options_ok opts \<Longrightarrow> options_ok (f opts)) \<Longrightarrow>
     keys_ok (AList.map_entry s f secs)"
  by (induction secs) (auto simp: keys_ok_def)

lemma append_value_keys_ok:
  "keys_ok (r_sections st) \<Longrightarrow> keys_ok (r_sections (append_value st s k v))"
  by (simp add: append_value_def keys_ok_map_entry options_ok_map_entry)

lemma assign_value_keys_ok:
  "keys_ok (r_sections st) \<Longrightarrow> keys_ok (r_sections (assign_value st s (optionxform k) v))"
  by (simp add: assign_value_def keys_ok_map_entry options_ok_update optionxform_idem)

lemma new_section_keys_ok: "keys_ok secs \<Longrightarrow> keys_ok (secs @ [(n, [])])"
  by (simp add: keys_ok_def options_ok_def)

lemma read_line_keys_ok:
  assumes "read_line st line = Inr st'" and "keys_ok (r_sections st)"
  shows "keys_ok (r_sections st')"
  using assms unfolding read_line_def
  by (auto simp: append_value_keys_ok assign_value_keys_ok new_section_keys_ok
      split: if_splits option.splits prod.splits)

lemma read_lines_keys_ok:
  "read_lines st ls = Inr st' \<Longrightarrow> keys_ok (r_sections st) \<Longrightarrow> keys_ok (r_sections st')"
proof (induction ls arbitrary: st)
  case Nil
  then show ?case by simp
next
  case (Cons l ls)
  then show ?case by (auto split: sum.splits dest: read_line_keys_ok)
qed

lemma join_keys_ok: "keys_ok secs \<Longrightarrow> keys_ok (join_multiline_values secs)"
  by (induction secs)
     (auto simp: keys_ok_def join_multiline_values_def options_ok_def comp_def case_prod_unfold)

lemma cp_read_store:
  assumes "cp_read files p = Inr cp"
  shows "defaults cp = [] \<and> keys_ok (sections cp)"
proof (cases "files p")
  case None
  with assms show ?thesis by (auto simp: cp_read_def empty_store_def keys_ok_def)
next
  case (Some content)
  with assms obtain st where
    st: "read_lines initial_read_state (file_lines (universal_newlines content)) = Inr st"
    and cp: "cp = \<lparr>defaults = [], sections = join_multiline_values (r_sections st)\<rparr>"
    by (auto simp: cp_read_def read_text_def split: sum.splits if_splits)
  have "keys_ok (r_sections initial_read_state)" by (simp add: initial_read_state_def keys_ok_def)
  from read_lines_keys_ok [OF st this] cp show ?thesis by (simp add: join_keys_ok)
qed

lemma keys_ok_lookup: "keys_ok secs \<Longrightarrow> map_of secs n = Some opts \<Longrightarrow> options_ok opts"
  by (force simp: keys_ok_def list_all_iff dest: map_of_SomeD)

subsection \<open>update_credentials_file\<close>

lemma dirname_tmp: "dirname (p @ ''.tmp'') = dirname p"
proof -
  have "dropWhile (\<lambda>c. c \<noteq> CHR ''/'') (rev (p @ ''.tmp'')) = dropWhile (\<lambda>c. c \<noteq> CHR ''/'') (rev p)"
    by simp
  then show ?thesis unfolding dirname_def by presburger
qed

lemma tmp_differs: "p @ ''.tmp'' \<noteq> p"
  by simp

text \<open>
  Claim C10. For the states \<open>history\<close> the file system goes through during
  \<open>update_credentials_file\<close>, whatever goes wrong (\<open>flt\<close>): the temporary file lies in
  the directory of the credentials file; in every state the credentials file holds either
  what it held before or the complete text of the rebuilt store; when the call raises, it
  holds what it held before in every state; and when the call succeeds, the last step is
  the rename, made from a state in which the temporary file holds the complete text and
  before which the credentials file never changed. Once the store is rebuilt, without a
  fault the call succeeds: it creates the temporary file, writes the complete text to
  it, and renames it, after which the credentials file holds that text and the temporary
  file is gone; a failing open leaves the file system as it was; a failing write leaves
  the first \<open>n\<close> characters in the temporary file; a failing rename leaves the complete
  text there; and when the rebuild raises, nothing is written.
\<close>

theorem persist_is_atomic:
  assumes "update_credentials_file flt a cp c files = (r, history)"
  shows "dirname (aws_credentials a @ ''.tmp'') = dirname (aws_credentials a) \<and>
         (\<forall>f \<in> set history.
            f (aws_credentials a) = files (aws_credentials a) \<or>
            (\<exists>cp'. rebuild_target a cp c = Inr cp' \<and>
                   f (aws_credentials a) = Some (cp_write cp'))) \<and>
         (\<forall>x. r = Inl x \<longrightarrow> (\<forall>f \<in> set history. f (aws_credentials a) = files (aws_credentials a))) \<and>
         (\<forall>cp'. r = Inr cp' \<longrightarrow>
            (\<exists>before. history = before @
                 [files(aws_credentials a @ ''.tmp'' \<mapsto> cp_write cp'),
                  (files(aws_credentials a @ ''.tmp'' := None))(aws_credentials a \<mapsto> cp_write cp')] \<and>
               (\<forall>f \<in> set before. f (aws_credentials a) = files (aws_credentials a)))) \<and>
         (\<forall>cp'. rebuild_target a cp c = Inr cp' \<longrightarrow>
            (flt = NoFault \<longrightarrow>
               r = Inr cp' \<and>
               history = [files,
                          files(aws_credentials a @ ''.tmp'' \<mapsto> []),
                          files(aws_credentials a @ ''.tmp'' \<mapsto> cp_write cp'),
                          (files(aws_credentials a @ ''.tmp'' := None))
                            (aws_credentials a \<mapsto> cp_write cp')] \<and>
               last history (aws_credentials a) = Some (cp_write cp') \<and>
               last history (aws_credentials a @ ''.tmp'') = None) \<and>
            (flt = OpenFails \<longrightarrow> r = Inl OSError \<and> history = [files]) \<and>
            (\<forall>n. flt = WriteFails n \<longrightarrow>
               r = Inl OSError \<and>
               history = [files,
                          files(aws_credentials a @ ''.tmp'' \<mapsto> []),
                          files(aws_credentials a @ ''.tmp'' \<mapsto> take n (cp_write cp'))]) \<and>
            (flt = RenameFails \<longrightarrow>
               r = Inl OSError \<and>
               history = [files,
                          files(aws_credentials a @ ''.tmp'' \<mapsto> []),
                          files(aws_credentials a @ ''.tmp'' \<mapsto> cp_write cp')])) \<and>
         (\<forall>x. rebuild_target a cp c = Inl x \<longrightarrow> r = Inl x \<and> history = [files])"
proof -
  have d: "aws_credentials a @ ''.tmp'' \<noteq> aws_credentials a" by simp
  show ?thesis
  proof (cases "rebuild_target a cp c")
    case (Inl x)
    with assms show ?thesis
      by (auto simp: update_credentials_file_def dirname_tmp)
  next
    case (Inr cp')
    from assms d show ?thesis
      by (cases flt)
         (auto simp: update_credentials_file_def write_and_rename_def dirname_tmp Inr)
  qed
qed

lemma set_option_others:
  "set_option cp P k v = Inr cp' \<Longrightarrow> AList.delete P (sections cp') = AList.delete P (sections cp)"
  by (auto simp: set_option_def AList.delete_update_same split: sum.splits if_splits option.splits)

lemma set_all_others:
  "set_all cp P kvs = Inr cp' \<Longrightarrow> AList.delete P (sections cp') = AList.delete P (sections cp)"
proof (induction kvs arbitrary: cp)
  case Nil
  then show ?case by simp
next
  case (Cons kv kvs)
  obtain k v where kv: "kv = (k, v)" by (cases kv)
  from Cons.prems kv obtain cp1 where 1: "set_option cp P k v = Inr cp1" and 2: "set_all cp1 P kvs = Inr cp'"
    by (auto split: sum.splits)
  from Cons.IH [OF 2] set_option_others [OF 1] show ?case by simp
qed

lemma add_remove_others:
  "add_section (remove_section cp P) P = Inr cp1 \<Longrightarrow>
     sections cp1 = AList.delete P (sections cp) @ [(P, [])] \<and> defaults cp1 = defaults cp"
  by (auto simp: add_section_def remove_section_def split: if_splits)

lemma delete_snoc_same: "AList.delete P (xs @ [(P, y)]) = AList.delete P xs"
  by (simp add: AList.delete_eq)

lemma rebuild_target_others:
  assumes "rebuild_target a cp c = Inr cp'"
  shows "AList.delete (target_profile a) (sections cp') = AList.delete (target_profile a) (sections cp)"
proof -
  let ?P = "target_profile a"
  from assms obtain cp1 kvs cp2 cp3 cp4 cp5 where
    1: "add_section (remove_section cp ?P) ?P = Inr cp1" and
    2: "set_all cp1 ?P kvs = Inr cp2" and
    3: "set_option cp2 ?P ''aws_access_key_id'' (AccessKeyId c) = Inr cp3" and
    4: "set_option cp3 ?P ''aws_secret_access_key'' (SecretAccessKey c) = Inr cp4" and
    5: "set_option cp4 ?P ''aws_session_token'' (SessionToken c) = Inr cp5" and
    6: "set_option cp5 ?P ''awsmfa_expiration'' (isoformat (Expiration c)) = Inr cp'"
    unfolding rebuild_target_def by (auto split: sum.splits)
  have "AList.delete ?P (sections cp1) = AList.delete ?P (sections cp)"
    using add_remove_others [OF 1] by (simp add: delete_snoc_same AList.delete_idem)
  with set_all_others [OF 2] set_option_others [OF 3] set_option_others [OF 4]
       set_option_others [OF 5] set_option_others [OF 6]
  show ?thesis by simp
qed

lemma update_success:
  "update_credentials_file flt a cp c files = (Inr cp', history) \<Longrightarrow>
     rebuild_target a cp c = Inr cp' \<and> flt = NoFault \<and>
     last history = (files(aws_credentials a @ ''.tmp'' := None))(aws_credentials a \<mapsto> cp_write cp')"
  by (cases flt) (auto simp: update_credentials_file_def write_and_rename_def split: sum.splits)

lemma before_set_value: "before_set v = Inr v' \<Longrightarrow> v' = v"
  by (simp add: before_set_def split: if_splits)

lemma set_option_target:
  assumes "set_option cp P k v = Inr cp'" and "P \<noteq> []" and "map_of (sections cp) P = Some d"
  shows "map_of (sections cp') P = Some (AList.update (optionxform k) v d) \<and> defaults cp' = defaults cp"
  using assms
  by (auto simp: set_option_def AList.update_conv' dest: before_set_value split: sum.splits if_splits)

lemma set_all_target:
  assumes "set_all cp P kvs = Inr cp'" and "P \<noteq> []" and "map_of (sections cp) P = Some d"
    and "\<forall>(k, v) \<in> set kvs. optionxform k = k"
  shows "map_of (sections cp') P = Some (dict_update d kvs) \<and> defaults cp' = defaults cp"
  using assms
proof (induction kvs arbitrary: cp d)
  case Nil
  then show ?case by (simp add: dict_update_def)
next
  case (Cons kv kvs)
  obtain k v where kv: "kv = (k, v)" by (cases kv)
  from Cons.prems(1) kv obtain cp1 where 1: "set_option cp P k v = Inr cp1" and 2: "set_all cp1 P kvs = Inr cp'"
    by (auto split: sum.splits)
  from Cons.prems(4) kv have k: "optionxform k = k" and r: "\<forall>(k, v) \<in> set kvs. optionxform k = k" by auto
  note s = set_option_target [OF 1 Cons.prems(2,3)]
  from Cons.IH [OF 2 Cons.prems(2) _ r] s k kv show ?case
    by (simp add: dict_update_def)
qed

lemma update_fresh: "k \<notin> fst ` set al \<Longrightarrow> AList.update k v al = al @ [(k, v)]"
  by (induction al) auto

lemma dict_update_fresh:
  "distinct (map fst kvs) \<Longrightarrow> fst ` set acc \<inter> fst ` set kvs = {} \<Longrightarrow> dict_update acc kvs = acc @ kvs"
proof (induction kvs arbitrary: acc)
  case Nil
  then show ?case by (simp add: dict_update_def)
next
  case (Cons kv kvs)
  obtain k v where kv: "kv = (k, v)" by (cases kv)
  from Cons.prems kv have f: "k \<notin> fst ` set acc" by auto
  from Cons.prems kv have "dict_update (acc @ [(k, v)]) kvs = (acc @ [(k, v)]) @ kvs"
    by (intro Cons.IH) auto
  with f kv show ?case by (simp add: dict_update_def update_fresh)
qed

lemma interpolate_plain: "CHR ''%'' \<notin> set v \<Longrightarrow> before_get d v = Inr v"
proof -
  assume "CHR ''%'' \<notin> set v"
  then have "dropWhile (\<lambda>c. c \<noteq> CHR ''%'') v = []" by (auto simp: dropWhile_eq_Nil_conv)
  then show ?thesis
    unfolding before_get_def
    by (subst interpolate_some.simps) (simp add: MAX_INTERPOLATION_DEPTH_def)
qed

lemma get_values_plain: "\<forall>(k, v) \<in> set kvs. CHR ''%'' \<notin> set v \<Longrightarrow> get_values d kvs = Inr kvs"
  by (induction kvs) (auto simp: interpolate_plain)

lemma reserved_keys:
  "optionxform ''aws_access_key_id'' = ''aws_access_key_id''"
  "optionxform ''aws_secret_access_key'' = ''aws_secret_access_key''"
  "optionxform ''aws_session_token'' = ''aws_session_token''"
  "optionxform ''awsmfa_expiration'' = ''awsmfa_expiration''"
  by code_simp+

lemma rebuild_target_profile:
  assumes "update_credentials_file flt a cp c files = (Inr cp', history)"
    and "map_of (sections cp) (identity_profile a) = Some src"
    and "target_profile a \<noteq> identity_profile a" and "target_profile a \<noteq> []"
    and "defaults cp = []" and "options_ok src"
    and "\<forall>(k, v) \<in> set src. CHR ''%'' \<notin> set v"
  shows "map_of (sections cp') (target_profile a) =
           Some (AList.update ''awsmfa_expiration'' (isoformat (Expiration c))
                  (AList.update ''aws_session_token'' (SessionToken c)
                    (AList.update ''aws_secret_access_key'' (SecretAccessKey c)
                      (AList.update ''aws_access_key_id'' (AccessKeyId c) src))))"
proof -
  let ?P = "target_profile a"
  have r: "rebuild_target a cp c = Inr cp'" using update_success [OF assms(1)] by simp
  then obtain cp1 kvs cp2 cp3 cp4 cp5 where
    1: "add_section (remove_section cp ?P) ?P = Inr cp1" and
    i: "items cp1 (identity_profile a) = Inr kvs" and
    2: "set_all cp1 ?P kvs = Inr cp2" and
    3: "set_option cp2 ?P ''aws_access_key_id'' (AccessKeyId c) = Inr cp3" and
    4: "set_option cp3 ?P ''aws_secret_access_key'' (SecretAccessKey c) = Inr cp4" and
    5: "set_option cp4 ?P ''aws_session_token'' (SessionToken c) = Inr cp5" and
    6: "set_option cp5 ?P ''awsmfa_expiration'' (isoformat (Expiration c)) = Inr cp'"
    unfolding rebuild_target_def by (auto split: sum.splits)
  note s1 = add_remove_others [OF 1]
  have id1: "map_of (sections cp1) (identity_profile a) = Some src"
    using s1 assms(2,3) by (simp add: AList.delete_conv' map_add_def)
  have t1: "map_of (sections cp1) ?P = Some []"
    using s1 by (simp add: AList.delete_conv' map_add_def)
  have dist: "distinct (map fst src)" and lows: "\<forall>(k, v) \<in> set src. optionxform k = k"
    using assms(6) by (auto simp: options_ok_def list_all_iff)
  have du: "dict_update [] src = src" using dict_update_fresh [OF dist, of "[]"] by simp
  have kvs: "kvs = src"
    using i id1 s1 assms(5,7) du get_values_plain [of src src]
    by (auto simp: items_def)
  have low: "\<forall>(k, v) \<in> set kvs. optionxform k = k" using lows kvs by auto
  have t2: "map_of (sections cp2) ?P = Some src"
    using set_all_target [OF 2 assms(4) t1 low] du kvs by simp
  note t3 = set_option_target [OF 3 assms(4) t2, THEN conjunct1]
  note t4 = set_option_target [OF 4 assms(4) t3, THEN conjunct1]
  note t5 = set_option_target [OF 5 assms(4) t4, THEN conjunct1]
  note t6 = set_option_target [OF 6 assms(4) t5, THEN conjunct1]
  then show ?thesis by (simp add: reserved_keys)
qed


text \<open>
  Claim C3, amended. For a store read from the credentials file, after a successful
  \<open>update_credentials_file\<close> whose target profile is not empty and differs from the
  identity profile, and when no value of the identity profile \<open>src\<close> contains a percent
  sign: the target profile is \<open>src\<close> with the four options \<^verbatim>\<open>aws_access_key_id\<close>,
  \<^verbatim>\<open>aws_secret_access_key\<close>, \<^verbatim>\<open>aws_session_token\<close> and \<^verbatim>\<open>awsmfa_expiration\<close> (the
  \<^verbatim>\<open>isoformat()\<close> of the expiration) set, in this order, and nothing else.
\<close>

theorem target_profile_rebuilt:
  assumes "cp_read files (aws_credentials a) = Inr cp"
    and "update_credentials_file flt a cp c files = (Inr cp', history)"
    and "map_of (sections cp) (identity_profile a) = Some src"
    and "target_profile a \<noteq> identity_profile a" and "target_profile a \<noteq> []"
    and "\<forall>(k, v) \<in> set src. CHR ''%'' \<notin> set v"
  shows "map_of (sections cp') (target_profile a) =
           Some (AList.update ''awsmfa_expiration'' (isoformat (Expiration c))
                  (AList.update ''aws_session_token'' (SessionToken c)
                    (AList.update ''aws_secret_access_key'' (SecretAccessKey c)
                      (AList.update ''aws_access_key_id'' (AccessKeyId c) src))))"
proof -
  note w = cp_read_store [OF assms(1)]
  have "options_ok src" using keys_ok_lookup [OF conjunct2 [OF w] assms(3)] .
  with w show ?thesis
    using rebuild_target_profile [OF assms(2,3,4,5) _ _ assms(6)] by simp
qed



lemma sample_rotation:
  "fst (update_credentials_file NoFault sample_args sample_store sample_credentials sample_files)
     = Inr \<lparr>defaults = [],
         sections =
           [(''identity'',
             [(''aws_access_key_id'', ''AKIAEXAMPLE''),
              (''aws_secret_access_key'', ''long-lived''),
              (''region'', ''us-east-1'')]),
            (''work'', [(''region'', ''eu-west-1'')]),
            (''default'',
             [(''aws_access_key_id'', ''ASIAEXAMPLE''),
              (''aws_secret_access_key'', ''secret''),
              (''region'', ''us-east-1''),
              (''aws_session_token'', ''token''),
              (''awsmfa_expiration'', ''2024-05-17T09:30:00+00:00'')])]\<rparr>"
  by code_simp

theorem target_profile_rebuilt_witness:
  "map_of (sections (projr (fst (update_credentials_file NoFault sample_args sample_store
       sample_credentials sample_files)))) ''default''
     = Some [(''aws_access_key_id'', ''ASIAEXAMPLE''), (''aws_secret_access_key'', ''secret''),
             (''region'', ''us-east-1''), (''aws_session_token'', ''token''),
             (''awsmfa_expiration'', ''2024-05-17T09:30:00+00:00'')]"
proof -
  let ?r = "update_credentials_file NoFault sample_args sample_store sample_credentials sample_files"
  note f = sample_rotation
  then have 2: "?r = (Inr (projr (fst ?r)), snd ?r)" by (metis prod.collapse sum.sel(2))
  have 3: "map_of (sections sample_store) (identity_profile sample_args)
             = Some [(''aws_access_key_id'', ''AKIAEXAMPLE''),
                     (''aws_secret_access_key'', ''long-lived''), (''region'', ''us-east-1'')]"
    by (simp add: sample_store_def sample_args_def)
  have 4: "target_profile sample_args \<noteq> identity_profile sample_args"
    and 5: "target_profile sample_args \<noteq> []"
    by (simp_all add: sample_args_def)
  have 6: "\<forall>(k, v) \<in> set [(''aws_access_key_id'', ''AKIAEXAMPLE''),
                     (''aws_secret_access_key'', ''long-lived''), (''region'', ''us-east-1'')].
             CHR ''%'' \<notin> set v"
    by simp
  have t: "target_profile sample_args = ''default''" by (simp add: sample_args_def)
  have c: "AccessKeyId sample_credentials = ''ASIAEXAMPLE''"
    "SecretAccessKey sample_credentials = ''secret''" "SessionToken sample_credentials = ''token''"
    by (simp_all add: sample_credentials_def)
  have i: "isoformat (Expiration sample_credentials) = ''2024-05-17T09:30:00+00:00''"
    by code_simp
  from target_profile_rebuilt [OF sample_read 2 3 4 5 6]
  show ?thesis by (simp add: f t c i)
qed

text \<open>
  Claim C3 as stated fails when the target profile is the identity profile: the section
  is removed before its options are read, so the rebuilt profile holds the four
  temporary fields only, and \<^verbatim>\<open>region\<close> of the identity profile is gone.
\<close>

theorem target_equal_to_identity_counterexample:
  "cp_read sample_files ''/home/alice/.aws/credentials'' = Inr sample_store \<and>
   map_of (sections sample_store) ''identity''
     = Some [(''aws_access_key_id'', ''AKIAEXAMPLE''), (''aws_secret_access_key'', ''long-lived''),
             (''region'', ''us-east-1'')] \<and>
   fst (update_credentials_file NoFault
          (sample_args\<lparr>target_profile := ''identity'', identity_profile := ''identity''\<rparr>)
          sample_store sample_credentials sample_files)
     = Inr \<lparr>defaults = [],
            sections =
              [(''default'', [(''aws_access_key_id'', ''stale''), (''output'', ''json'')]),
               (''work'', [(''region'', ''eu-west-1'')]),
               (''identity'',
                [(''aws_access_key_id'', ''ASIAEXAMPLE''), (''aws_secret_access_key'', ''secret''),
                 (''aws_session_token'', ''token''),
                 (''awsmfa_expiration'', ''2024-05-17T09:30:00+00:00'')])]\<rparr>"
  by code_simp

lemma sample_rebuild: "rebuild_target sample_args sample_store sample_credentials = Inr sample_rotated"
  by code_simp

theorem persist_is_atomic_witness:
  "dirname (''/home/alice/.aws/credentials'' @ ''.tmp'') = dirname ''/home/alice/.aws/credentials'' \<and>
   update_credentials_file NoFault sample_args sample_store sample_credentials sample_files
     = (Inr sample_rotated,
        [sample_files,
         sample_files(''/home/alice/.aws/credentials'' @ ''.tmp'' \<mapsto> []),
         sample_files(''/home/alice/.aws/credentials'' @ ''.tmp'' \<mapsto> cp_write sample_rotated),
         (sample_files(''/home/alice/.aws/credentials'' @ ''.tmp'' := None))
           (''/home/alice/.aws/credentials'' \<mapsto> cp_write sample_rotated)]) \<and>
   update_credentials_file (WriteFails 10) sample_args sample_store sample_credentials sample_files
     = (Inl OSError,
        [sample_files,
         sample_files(''/home/alice/.aws/credentials'' @ ''.tmp'' \<mapsto> []),
         sample_files(''/home/alice/.aws/credentials'' @ ''.tmp''
           \<mapsto> take 10 (cp_write sample_rotated))]) \<and>
   list_all (\<lambda>f. f ''/home/alice/.aws/credentials'' = Some (cp_write sample_store))
     (snd (update_credentials_file (WriteFails 10) sample_args sample_store sample_credentials
          sample_files))"
proof -
  let ?r0 = "update_credentials_file NoFault sample_args sample_store sample_credentials sample_files"
  let ?r1 = "update_credentials_file (WriteFails 10) sample_args sample_store sample_credentials sample_files"
  have p: "aws_credentials sample_args = ''/home/alice/.aws/credentials''"
    by (simp add: sample_args_def)
  have old: "sample_files ''/home/alice/.aws/credentials'' = Some (cp_write sample_store)"
    by (simp add: sample_files_def)
  have 0: "?r0 = (fst ?r0, snd ?r0)" and 1: "?r1 = (fst ?r1, snd ?r1)" by simp_all
  from persist_is_atomic [OF 0] sample_rebuild
  have a: "fst ?r0 = Inr sample_rotated"
    and b: "snd ?r0 = [sample_files,
         sample_files(''/home/alice/.aws/credentials'' @ ''.tmp'' \<mapsto> []),
         sample_files(''/home/alice/.aws/credentials'' @ ''.tmp'' \<mapsto> cp_write sample_rotated),
         (sample_files(''/home/alice/.aws/credentials'' @ ''.tmp'' := None))
           (''/home/alice/.aws/credentials'' \<mapsto> cp_write sample_rotated)]"
    and d: "dirname (''/home/alice/.aws/credentials'' @ ''.tmp'') = dirname ''/home/alice/.aws/credentials''"
    unfolding p by blast+
  from persist_is_atomic [OF 1] sample_rebuild
  have c: "fst ?r1 = Inl OSError"
    and e: "snd ?r1 = [sample_files,
         sample_files(''/home/alice/.aws/credentials'' @ ''.tmp'' \<mapsto> []),
         sample_files(''/home/alice/.aws/credentials'' @ ''.tmp''
           \<mapsto> take 10 (cp_write sample_rotated))]"
    unfolding p by blast+
  have l: "list_all (\<lambda>f. f ''/home/alice/.aws/credentials'' = Some (cp_write sample_store)) (snd ?r1)"
    unfolding e by (simp add: old)
  from a b have "?r0 = (Inr sample_rotated, snd ?r0)" by (metis prod.collapse)
  moreover from c have "?r1 = (Inl OSError, snd ?r1)" by (metis prod.collapse)
  ultimately show ?thesis using b e d l by simp
qed

subsection \<open>Writing a store and reading it back\<close>

lemma lstrip_id: "stripped s \<Longrightarrow> lstrip s = s"
  by (cases s) (auto simp: stripped_def lstrip_def)

lemma rstrip_id: "stripped s \<Longrightarrow> rstrip s = s"
proof (cases "s = []")
  case True
  then show ?thesis by (simp add: rstrip_def)
next
  case False
  assume "stripped s"
  with False have "\<not> isspace (hd (rev s))" by (simp add: stripped_def hd_rev)
  with False have "dropWhile isspace (rev s) = rev s" by (cases "rev s") auto
  then show ?thesis by (simp add: rstrip_def)
qed

lemma strip_id: "stripped s \<Longrightarrow> strip s = s"
  by (simp add: strip_def lstrip_id rstrip_id)

lemma rstrip_snoc_space: "isspace c \<Longrightarrow> rstrip (s @ [c]) = rstrip s"
  by (simp add: rstrip_def)

lemma lstrip_cons_space: "isspace c \<Longrightarrow> lstrip (c # s) = lstrip s"
  by (simp add: lstrip_def)

lemma isspace_simps [simp]:
  "isspace (CHR '' '')" "isspace (CHR 0x0A)" "isspace (CHR 0x09)"
  "\<not> isspace (CHR ''['')" "\<not> isspace (CHR '']'')" "\<not> isspace (CHR ''='')"
  by (simp_all add: isspace_def)

lemma universal_newlines_id: "CHR 0x0D \<notin> set s \<Longrightarrow> universal_newlines s = s"
  by (induction s rule: universal_newlines.induct) auto

lemma file_lines_line:
  "CHR 0x0A \<notin> set l \<Longrightarrow> file_lines (l @ CHR 0x0A # rest) = l # file_lines rest"
  by (induction l) auto

lemma split_lines_nonempty [simp]: "split_lines v \<noteq> []"
  by (induction v) (auto split: list.splits)

lemma join_split_lines: "join [CHR 0x0A] (split_lines v) = v"
proof (induction v)
  case Nil
  then show ?case by simp
next
  case (Cons c cs)
  obtain l ls where s: "split_lines cs = l # ls" by (cases "split_lines cs") auto
  with Cons show ?case by (cases ls) auto
qed

lemma split_lines_chars:
  "l \<in> set (split_lines v) \<Longrightarrow> CHR 0x0A \<notin> set l \<and> set l \<subseteq> set v"
proof (induction v arbitrary: l)
  case Nil
  then show ?case by simp
next
  case (Cons c cs)
  obtain l0 ls where s: "split_lines cs = l0 # ls" by (cases "split_lines cs") auto
  with Cons show ?case by (fastforce split: if_splits)
qed

lemma join_snoc_empty: "xs \<noteq> [] \<Longrightarrow> join sep (xs @ [[]]) = join sep xs @ sep"
  by (induction sep xs rule: join.induct) auto

lemma header_stripped: "stripped (header_line n)"
  by (simp add: stripped_def header_line_def)

lemma header_not_comment: "\<not> is_comment_line (header_line n)"
  by (simp add: is_comment_line_def strip_id header_stripped) (simp add: header_line_def)

lemma header_first_nonspace: "first_nonspace (header_line n) = 0"
  by (simp add: first_nonspace_def header_line_def)

lemma header_match: "n \<noteq> [] \<Longrightarrow> sectcre_match (header_line n) = Some n"
  by (simp add: sectcre_match_def header_line_def)

lemma read_header:
  assumes "n \<noteq> []" and "n \<notin> set (map fst (r_sections st))"
  shows "read_line st (header_line n) =
           Inr (st\<lparr>r_indent_level := 0,
                    r_sections := r_sections st @ [(n, [])],
                    r_sectname := Some n,
                    r_elements_added := (n, None) # r_elements_added st,
                    r_optname := None\<rparr>)"
proof -
  have ne: "header_line n \<noteq> []" by (simp add: header_line_def)
  show ?thesis
    using assms ne
    by (simp add: read_line_def header_not_comment strip_id [OF header_stripped]
        header_first_nonspace header_match)
qed

lemma read_blank:
  "read_line st [] =
     (case (r_sectname st, r_optname st) of
        (Some sname, Some oname) \<Rightarrow> if oname \<noteq> [] then Inr (append_value st sname oname []) else Inr st
      | _ \<Rightarrow> Inr st)"
  by (simp add: read_line_def is_comment_line_def strip_def lstrip_def rstrip_def
      split: option.splits)

lemma is_delimiter_simps [simp]: "is_delimiter (CHR ''='')" "\<not> is_delimiter (CHR '' '')"
  by (simp_all add: is_delimiter_def)

lemma option_name_hd:
  assumes "wf_option_name k"
  shows "k \<noteq> [] \<and> \<not> isspace (hd k) \<and> \<not> isspace (last k) \<and> hd k \<noteq> CHR ''#'' \<and> hd k \<noteq> CHR '';''"
proof -
  from assms have ne: "k \<noteq> []" and s: "stripped k" and c: "\<not> is_comment_line k"
    by (simp_all add: wf_option_name_def)
  have "strip k = k" using strip_id [OF s] .
  with c ne have "hd k \<noteq> CHR ''#'' \<and> hd k \<noteq> CHR '';''"
    by (cases k) (auto simp: is_comment_line_def)
  with ne s show ?thesis by (simp add: stripped_def)
qed

lemma option_line_strip:
  assumes "wf_option_name k" and "stripped v"
  shows "strip (option_line (k, v)) = (if v = [] then k @ '' ='' else option_line (k, v))"
proof (cases "v = []")
  case True
  note h = option_name_hd [OF assms(1)]
  have s: "stripped (k @ '' ='')" using h by (cases k) (auto simp: stripped_def)
  have l: "lstrip (k @ '' = '') = k @ '' = ''"
    using h by (cases k) (auto simp: lstrip_def)
  have "rstrip ((k @ '' ='') @ '' '') = rstrip (k @ '' ='')" by (rule rstrip_snoc_space) simp
  then have "rstrip (k @ '' = '') = k @ '' =''" using rstrip_id [OF s] by simp
  with True l show ?thesis by (simp add: option_line_def strip_def)
next
  case False
  note h = option_name_hd [OF assms(1)]
  have "stripped (option_line (k, v))"
    using assms(2) False h by (cases k) (auto simp: stripped_def option_line_def)
  with False show ?thesis by (simp add: strip_id)
qed

lemma option_line_hd:
  assumes "wf_option_name k" and "stripped v"
  shows "strip (option_line (k, v)) \<noteq> [] \<and> hd (strip (option_line (k, v))) = hd k"
proof -
  have ne: "k \<noteq> []" using assms(1) by (simp add: wf_option_name_def)
  note s = option_line_strip [OF assms]
  show ?thesis
  proof (cases "v = []")
    case True
    with s ne show ?thesis by (cases k) auto
  next
    case False
    with s ne show ?thesis by (cases k) (auto simp: option_line_def)
  qed
qed

lemma option_not_comment:
  assumes "wf_option_name k" and "stripped v"
  shows "\<not> is_comment_line (option_line (k, v))"
  using option_line_hd [OF assms] option_name_hd [OF assms(1)]
  by (cases "strip (option_line (k, v))") (auto simp: is_comment_line_def)

lemma option_first_nonspace:
  assumes "wf_option_name k"
  shows "first_nonspace (option_line (k, v)) = 0"
  using option_name_hd [OF assms] by (cases k) (auto simp: first_nonspace_def option_line_def)

lemma takeWhile_no_delim:
  "list_all (\<lambda>c. \<not> is_delimiter c) k \<Longrightarrow>
     takeWhile (\<lambda>c. \<not> is_delimiter c) (k @ CHR '' '' # CHR ''='' # r) = k @ '' '' \<and>
     dropWhile (\<lambda>c. \<not> is_delimiter c) (k @ CHR '' '' # CHR ''='' # r) = CHR ''='' # r"
  by (induction k) auto

lemma option_match:
  assumes "wf_option_name k" and "stripped v"
  shows "\<exists>opt optval. optcre_match (strip (option_line (k, v))) = Some (opt, optval) \<and>
           opt \<noteq> [] \<and> optionxform (rstrip opt) = k \<and> strip optval = v"
proof -
  have nd: "list_all (\<lambda>c. \<not> is_delimiter c) k" and sk: "stripped k" and ne: "k \<noteq> []"
    and lo: "optionxform k = k"
    using assms(1) by (simp_all add: wf_option_name_def)
  note sv = assms(2)
  have rk: "rstrip (k @ '' '') = k"
    using rstrip_snoc_space [of "CHR '' ''" k] rstrip_id [OF sk] by simp
  show ?thesis
  proof (cases "v = []")
    case True
    then have s: "strip (option_line (k, v)) = k @ CHR '' '' # CHR ''='' # []"
      using option_line_strip [OF assms] by simp
    show ?thesis
      unfolding s optcre_match_def
      using takeWhile_no_delim [OF nd, of "[]"] rk ne lo True rstrip_id [OF sk]
      by (simp add: lstrip_def strip_def rstrip_def)
  next
    case False
    then have s: "strip (option_line (k, v)) = k @ CHR '' '' # CHR ''='' # (CHR '' '' # v)"
      using option_line_strip [OF assms] by (simp add: option_line_def)
    have lv: "lstrip (CHR '' '' # v) = v"
      using lstrip_cons_space [of "CHR '' ''" v] lstrip_id [OF sv] by simp
    have "strip v = v" using strip_id [OF sv] .
    then show ?thesis
      unfolding s optcre_match_def
      using takeWhile_no_delim [OF nd, of "CHR '' '' # v"] rk ne lo lv rstrip_id [OF sk]
      by simp
  qed
qed

lemma read_option:
  assumes "wf_option_name k" and "stripped v"
    and "sectcre_match (strip (option_line (k, v))) = None"
    and "r_sectname st = Some sname" and "(sname, Some k) \<notin> set (r_elements_added st)"
  shows "read_line st (option_line (k, v)) =
           Inr (assign_value
                  (st\<lparr>r_indent_level := 0,
                      r_e := r_e st,
                      r_optname := Some k,
                      r_elements_added := (sname, Some k) # r_elements_added st\<rparr>)
                  sname k v)"
proof -
  from option_match [OF assms(1,2)] obtain opt optval where
    m: "optcre_match (strip (option_line (k, v))) = Some (opt, optval)"
    and o: "opt \<noteq> []" "optionxform (rstrip opt) = k" "strip optval = v"
    by blast
  have ne: "strip (option_line (k, v)) \<noteq> []" using option_line_hd [OF assms(1,2)] by simp
  show ?thesis
    using assms(3,4,5) ne m o
    by (simp add: read_line_def option_not_comment [OF assms(1,2)]
        option_first_nonspace [OF assms(1)])
qed

lemma read_continuation:
  assumes "r_sectname st = Some sname" and "r_optname st = Some k" and "k \<noteq> []"
    and "r_indent_level st = 0" and "stripped l" and "\<not> is_comment_line l"
  shows "read_line st (CHR 0x09 # l) = Inr (append_value st sname k l)"
proof (cases "l = []")
  case True
  have s: "strip [CHR 0x09] = []" by (simp add: strip_def lstrip_def rstrip_def)
  show ?thesis
    using assms(1,2,3) True
    by (simp add: read_line_def is_comment_line_def s)
next
  case False
  have l1: "lstrip (CHR 0x09 # l) = l"
    using lstrip_cons_space [of "CHR 0x09" l] lstrip_id [OF assms(5)] by simp
  then have s: "strip (CHR 0x09 # l) = l" by (simp add: strip_def rstrip_id [OF assms(5)])
  have c: "\<not> is_comment_line (CHR 0x09 # l)"
    using assms(6) by (simp add: is_comment_line_def s strip_id [OF assms(5)])
  have "\<not> isspace (hd l)" using assms(5) False by (simp add: stripped_def)
  then have f: "first_nonspace (CHR 0x09 # l) = 1"
    using False by (cases l) (auto simp: first_nonspace_def)
  show ?thesis
    using assms(1,2,3,4) False
    by (simp add: read_line_def c s f truthy_def)
qed

lemma map_entry_last: "k \<notin> fst ` set ys \<Longrightarrow> AList.map_entry k f (ys @ [(k, x)]) = ys @ [(k, f x)]"
  by (induction ys) auto

lemma fst_single [simp]: "fst ` single ` A = fst ` A"
  by (simp add: image_image single_def)

lemma update_fresh_single:
  "k \<notin> fst ` set xs \<Longrightarrow> AList.update k x (map single xs) = map single xs @ [(k, x)]"
  by (rule update_fresh) simp

lemma map_entry_last_single:
  "k \<notin> fst ` set ys \<Longrightarrow>
     AList.map_entry k f (map single ys @ [(k, x)]) = map single ys @ [(k, f x)]"
  by (rule map_entry_last) simp

lemma read_lines_append:
  "read_lines st (xs @ ys) =
     (case read_lines st xs of Inl x \<Rightarrow> Inl x | Inr st' \<Rightarrow> read_lines st' ys)"
  by (induction xs arbitrary: st) (auto split: sum.splits)

lemma read_value_lines:
  assumes "r_sections st = pre @ [(n, ys @ [(k, ls0)])]" and "n \<notin> fst ` set pre"
    and "k \<notin> fst ` set ys" and "r_sectname st = Some n" and "r_optname st = Some k"
    and "k \<noteq> []" and "r_indent_level st = 0"
    and "list_all stripped ls" and "list_all (\<lambda>l. \<not> is_comment_line l) ls"
  shows "read_lines st (map (\<lambda>l. CHR 0x09 # l) ls)
           = Inr (st\<lparr>r_sections := pre @ [(n, ys @ [(k, ls0 @ ls)])]\<rparr>)"
  using assms
proof (induction ls arbitrary: st ls0)
  case Nil
  then show ?case by simp
next
  case (Cons l ls)
  let ?st = "append_value st n k l"
  have step: "read_line st (CHR 0x09 # l) = Inr ?st"
    using Cons.prems by (intro read_continuation) simp_all
  have secs: "r_sections ?st = pre @ [(n, ys @ [(k, (ls0 @ [l]))])]"
    using Cons.prems(1,2,3) by (simp add: append_value_def map_entry_last)
  have "read_lines ?st (map (\<lambda>l. CHR 0x09 # l) ls)
          = Inr (?st\<lparr>r_sections := pre @ [(n, ys @ [(k, (ls0 @ [l]) @ ls)])]\<rparr>)"
    using Cons.prems secs by (intro Cons.IH) (simp_all add: append_value_def)
  with step show ?case by (simp add: append_value_def)
qed

lemma read_one_option:
  assumes "in_section st pre n seen" and "n \<notin> fst ` set pre" and "wf_option kv"
    and "fst kv \<notin> fst ` set seen"
  shows "\<exists>st'. read_lines st (option_lines kv) = Inr st' \<and> in_section st' pre n (seen @ [kv])"
proof -
  obtain k v where kv: "kv = (k, v)" by (cases kv)
  obtain l1 rest where sp: "split_lines v = l1 # rest" by (cases "split_lines v") auto
  from assms(3) kv sp have wk: "wf_option_name k" and s1: "stripped l1"
    and sr: "list_all stripped rest" and cr: "list_all (\<lambda>l. \<not> is_comment_line l) rest"
    and nh: "sectcre_match (strip (option_line (k, l1))) = None"
    by (simp_all add: wf_option_def wf_value_def)
  from wk have ne: "k \<noteq> []" by (simp add: wf_option_name_def)
  from assms(4) kv have fresh: "k \<notin> fst ` set seen" by simp
  from assms(1) have sn: "r_sectname st = Some n" by (simp add: in_section_def)
  have na: "(n, Some k) \<notin> set (r_elements_added st)"
    using assms(1,2) fresh by (fastforce simp: in_section_def)
  let ?st1 = "assign_value
               (st\<lparr>r_indent_level := 0, r_e := r_e st, r_optname := Some k,
                   r_elements_added := (n, Some k) # r_elements_added st\<rparr>) n k l1"
  have step1: "read_line st (option_line (k, l1)) = Inr ?st1"
    using read_option [OF wk s1 nh sn na] .
  have secs1: "r_sections ?st1 = pre @ [(n, map single seen @ [(k, [] @ [l1])])]"
    using assms(1,2) fresh
    by (simp add: in_section_def assign_value_def map_entry_last update_fresh_single)
  let ?st2 = "?st1\<lparr>r_sections := pre @ [(n, map single seen @ [(k, ([] @ [l1]) @ rest)])]\<rparr>"
  have step2: "read_lines ?st1 (map (\<lambda>l. CHR 0x09 # l) rest) = Inr ?st2"
    using secs1 assms(2) fresh sn ne sr cr
    by (intro read_value_lines) (simp_all add: assign_value_def)
  have inv: "in_section ?st2 pre n (seen @ [kv])"
    using assms(1) kv sp by (auto simp: in_section_def assign_value_def single_def)
  have "read_lines st (option_lines kv) = Inr ?st2"
    using step1 step2 kv sp by (simp add: option_lines_def)
  with inv show ?thesis by blast
qed

lemma read_options:
  assumes "in_section st pre n seen" and "n \<notin> fst ` set pre" and "wf_options (seen @ opts)"
  shows "\<exists>st'. read_lines st (concat (map option_lines opts)) = Inr st' \<and>
               in_section st' pre n (seen @ opts)"
  using assms
proof (induction opts arbitrary: st seen)
  case Nil
  then show ?case by simp
next
  case (Cons kv opts)
  from Cons.prems(3) have w: "wf_option kv" and fresh: "fst kv \<notin> fst ` set seen"
    by (auto simp: wf_options_def)
  from read_one_option [OF Cons.prems(1,2) w fresh]
  obtain st1 where r: "read_lines st (option_lines kv) = Inr st1"
    and i: "in_section st1 pre n (seen @ [kv])"
    by blast
  have "wf_options ((seen @ [kv]) @ opts)" using Cons.prems(3) by simp
  from Cons.IH [OF i Cons.prems(2) this] r show ?case
    by (simp add: read_lines_append)
qed

lemma read_section_end:
  assumes "in_section st pre n opts" and "n \<notin> fst ` set pre" and "wf_options opts"
  shows "\<exists>st'. read_line st [] = Inr st' \<and> between st' (pre @ [(n, raw_options opts)])"
proof (cases "opts = []")
  case True
  with assms(1) have "read_line st [] = Inr st"
    by (simp add: read_blank in_section_def)
  moreover have "between st (pre @ [(n, raw_options opts)])"
    using assms(1) True by (auto simp: between_def in_section_def raw_options_def)
  ultimately show ?thesis by blast
next
  case False
  then obtain ys k v where o: "opts = ys @ [(k, v)]"
    by (metis append_butlast_last_id prod.collapse)
  from assms(3) o have ne: "k \<noteq> []" and fresh: "k \<notin> fst ` set ys"
    by (auto simp: wf_options_def wf_option_def wf_option_name_def)
  let ?st = "append_value st n k []"
  have step: "read_line st [] = Inr ?st"
    using assms(1) o ne by (simp add: read_blank in_section_def)
  have "AList.map_entry k (\<lambda>vs. vs @ [[]]) (map single ys @ [(k, split_lines v)])
          = map single ys @ [(k, split_lines v @ [[]])]"
    using map_entry_last_single [OF fresh, of "\<lambda>vs. vs @ [[]]" "split_lines v"] by simp
  then have "r_sections ?st = pre @ [(n, raw_options opts)]"
    using assms(1,2) o
    by (simp add: in_section_def append_value_def map_entry_last raw_options_def single_def)
  then have "between ?st (pre @ [(n, raw_options opts)])"
    using assms(1) by (auto simp: between_def in_section_def append_value_def)
  with step show ?thesis by blast
qed

lemma read_section:
  assumes "between st pre" and "n \<notin> fst ` set pre" and "wf_section_name n" and "wf_options opts"
  shows "\<exists>st'. read_lines st (section_lines (n, opts)) = Inr st' \<and>
               between st' (pre @ [(n, raw_options opts)])"
proof -
  let ?st1 = "st\<lparr>r_indent_level := 0, r_sections := r_sections st @ [(n, [])],
                  r_sectname := Some n, r_elements_added := (n, None) # r_elements_added st,
                  r_optname := None\<rparr>"
  have h: "read_line st (header_line n) = Inr ?st1"
    using assms(1,2,3) by (intro read_header) (auto simp: between_def wf_section_name_def)
  have i1: "in_section ?st1 pre n []"
    using assms(1) by (auto simp: in_section_def between_def)
  from read_options [OF i1 assms(2), of opts] assms(4)
  obtain st2 where o: "read_lines ?st1 (concat (map option_lines opts)) = Inr st2"
    and i2: "in_section st2 pre n opts"
    by auto
  from read_section_end [OF i2 assms(2,4)]
  obtain st3 where b: "read_line st2 [] = Inr st3" and i3: "between st3 (pre @ [(n, raw_options opts)])"
    by blast
  have "read_lines st (section_lines (n, opts)) = Inr st3"
    using h o b by (simp add: section_lines_def read_lines_append)
  with i3 show ?thesis by blast
qed

lemma read_sections:
  assumes "between st pre" and "distinct (map fst secs)" and "fst ` set pre \<inter> fst ` set secs = {}"
    and "list_all (\<lambda>s. wf_section_name (fst s) \<and> wf_options (snd s)) secs"
  shows "\<exists>st'. read_lines st (concat (map section_lines secs)) = Inr st' \<and>
               between st' (pre @ map (\<lambda>s. (fst s, raw_options (snd s))) secs)"
  using assms
proof (induction secs arbitrary: st pre)
  case Nil
  then show ?case by simp
next
  case (Cons s secs)
  obtain n opts where s: "s = (n, opts)" by (cases s)
  from Cons.prems s have f: "n \<notin> fst ` set pre" and wn: "wf_section_name n" and wo: "wf_options opts"
    by auto
  from read_section [OF Cons.prems(1) f wn wo]
  obtain st1 where r: "read_lines st (section_lines (n, opts)) = Inr st1"
    and b: "between st1 (pre @ [(n, raw_options opts)])"
    by blast
  have d: "distinct (map fst secs)" using Cons.prems(2) by simp
  have j: "fst ` set (pre @ [(n, raw_options opts)]) \<inter> fst ` set secs = {}"
    using Cons.prems(2,3) s by auto
  have w: "list_all (\<lambda>s. wf_section_name (fst s) \<and> wf_options (snd s)) secs"
    using Cons.prems(4) by simp
  from Cons.IH [OF b d j w] r s show ?case
    by (simp add: read_lines_append)
qed

lemma rstrip_newline: "rstrip (v @ [CHR 0x0A]) = rstrip v"
  by (rule rstrip_snoc_space) simp

lemma join_raw_options:
  assumes "wf_options opts"
  shows "map (\<lambda>(k, val). (k, rstrip (join [CHR 0x0A] val))) (raw_options opts) = opts"
proof -
  have s: "rstrip (snd kv) = snd kv" if "kv \<in> set opts" for kv
    using assms that by (auto simp: wf_options_def wf_option_def wf_value_def list_all_iff)
  have m: "map (\<lambda>(k, val). (k, rstrip (join [CHR 0x0A] val))) (map single xs) = xs"
    if "set xs \<subseteq> set opts" for xs
    using that by (induction xs) (auto simp: single_def s join_split_lines)
  show ?thesis
  proof (cases "opts = []")
    case True
    then show ?thesis by (simp add: raw_options_def)
  next
    case False
    then have o: "opts = butlast opts @ [last opts]" by simp
    have b: "set (butlast opts) \<subseteq> set opts" by (meson in_set_butlastD subsetI)
    have "rstrip (join [CHR 0x0A] (split_lines (snd (last opts)) @ [[]]))
            = rstrip (snd (last opts) @ [CHR 0x0A])"
      by (simp add: join_snoc_empty join_split_lines)
    then have l: "rstrip (join [CHR 0x0A] (split_lines (snd (last opts)) @ [[]])) = snd (last opts)"
      using s [of "last opts"] False by (simp add: rstrip_newline)
    have "map (\<lambda>(k, val). (k, rstrip (join [CHR 0x0A] val))) (raw_options opts)
            = butlast opts @ [last opts]"
      using False m [OF b] l by (simp add: raw_options_def)
    with o show ?thesis by simp
  qed
qed

lemma join_raw_sections:
  assumes "list_all (\<lambda>s. wf_section_name (fst s) \<and> wf_options (snd s)) secs"
  shows "join_multiline_values (map (\<lambda>s. (fst s, raw_options (snd s))) secs) = secs"
  using assms
  by (induction secs) (auto simp: join_multiline_values_def join_raw_options)

lemma terminated_append: "terminated (xs @ ys) = terminated xs @ terminated ys"
  by (simp add: terminated_def)

lemma file_lines_terminated:
  "\<forall>l \<in> set ls. CHR 0x0A \<notin> set l \<Longrightarrow> file_lines (terminated ls) = ls"
proof (induction ls)
  case Nil
  then show ?case by (simp add: terminated_def)
next
  case (Cons l ls)
  then have "file_lines (l @ CHR 0x0A # terminated ls) = l # file_lines (terminated ls)"
    by (intro file_lines_line) simp
  with Cons show ?case by (simp add: terminated_def)
qed

lemma replace_newlines_lines:
  "pfx @ replace_newlines v @ [CHR 0x0A]
     = terminated ((pfx @ hd (split_lines v)) # map (\<lambda>l. CHR 0x09 # l) (tl (split_lines v)))"
proof (induction v arbitrary: pfx)
  case Nil
  then show ?case by (simp add: replace_newlines_def terminated_def)
next
  case (Cons c cs)
  obtain l ls where s: "split_lines cs = l # ls" by (cases "split_lines cs") auto
  show ?case
  proof (cases "c = CHR 0x0A")
    case True
    have "[CHR 0x09] @ replace_newlines cs @ [CHR 0x0A]
            = terminated (([CHR 0x09] @ l) # map (\<lambda>l. CHR 0x09 # l) ls)"
      using Cons [of "[CHR 0x09]"] s by simp
    with True s show ?thesis by (simp add: replace_newlines_def terminated_def)
  next
    case False
    have "(pfx @ [c]) @ replace_newlines cs @ [CHR 0x0A]
            = terminated (((pfx @ [c]) @ l) # map (\<lambda>l. CHR 0x09 # l) ls)"
      using Cons [of "pfx @ [c]"] s by simp
    with False s show ?thesis by (simp add: replace_newlines_def terminated_def)
  qed
qed

lemma write_option_lines: "write_option kv = terminated (option_lines kv)"
  using replace_newlines_lines [of "fst kv @ '' = ''" "snd kv"]
  by (simp add: write_option_def option_lines_def option_line_def)

lemma write_section_lines: "write_section n opts = terminated (section_lines (n, opts))"
proof -
  have "concat (map write_option opts) = terminated (concat (map option_lines opts))"
    by (induction opts) (auto simp: terminated_append write_option_lines, simp add: terminated_def)
  then show ?thesis
    by (simp add: write_section_def section_lines_def terminated_def header_line_def)
qed

lemma write_lines:
  assumes "defaults cp = []"
  shows "cp_write cp = terminated (concat (map section_lines (sections cp)))"
proof -
  have "concat (map (\<lambda>(section, section_items). write_section section section_items) secs)
          = terminated (concat (map section_lines secs))" for secs
    by (induction secs) (auto simp: terminated_append write_section_lines terminated_def)
  with assms show ?thesis by (simp add: cp_write_def)
qed

lemma option_lines_chars:
  assumes "wf_option kv" and "l \<in> set (option_lines kv)"
  shows "CHR 0x0A \<notin> set l \<and> CHR 0x0D \<notin> set l"
proof -
  obtain l1 rest where sp: "split_lines (snd kv) = l1 # rest"
    by (cases "split_lines (snd kv)") auto
  have v: "CHR 0x0A \<notin> set x \<and> CHR 0x0D \<notin> set x" if "x \<in> set (split_lines (snd kv))" for x
    using split_lines_chars [OF that] assms(1) by (auto simp: wf_option_def wf_value_def)
  have k: "CHR 0x0A \<notin> set (fst kv) \<and> CHR 0x0D \<notin> set (fst kv)"
    using assms(1) by (simp add: wf_option_def wf_option_name_def no_linebreak_def)
  from assms(2) sp consider "l = option_line (fst kv, l1)" | x where "x \<in> set rest" "l = CHR 0x09 # x"
    by (auto simp: option_lines_def)
  then show ?thesis
  proof cases
    case 1
    with k v [of l1] sp show ?thesis by (simp add: option_line_def)
  next
    case 2
    with v [of x] sp show ?thesis by simp
  qed
qed

lemma section_lines_chars:
  assumes "wf_section_name n" and "wf_options opts" and "l \<in> set (section_lines (n, opts))"
  shows "CHR 0x0A \<notin> set l \<and> CHR 0x0D \<notin> set l"
proof -
  from assms(3) consider "l = header_line n" | "l = []"
    | kv where "kv \<in> set opts" "l \<in> set (option_lines kv)"
    by (auto simp: section_lines_def)
  then show ?thesis
  proof cases
    case 1
    with assms(1) show ?thesis by (simp add: header_line_def wf_section_name_def no_linebreak_def)
  next
    case 2
    then show ?thesis by simp
  next
    case 3
    with assms(2) option_lines_chars [of kv l] show ?thesis
      by (simp add: wf_options_def list_all_iff)
  qed
qed

lemma store_lines_chars:
  assumes "wf_store cp" and "l \<in> set (concat (map section_lines (sections cp)))"
  shows "CHR 0x0A \<notin> set l \<and> CHR 0x0D \<notin> set l"
proof -
  from assms(2) obtain s where s: "s \<in> set (sections cp)" and l: "l \<in> set (section_lines s)"
    by auto
  from assms(1) s have "wf_section_name (fst s)" "wf_options (snd s)"
    by (auto simp: wf_store_def list_all_iff)
  with l section_lines_chars [of "fst s" "snd s" l] show ?thesis by simp
qed

lemma terminated_no_cr: "\<forall>l \<in> set ls. CHR 0x0D \<notin> set l \<Longrightarrow> CHR 0x0D \<notin> set (terminated ls)"
  by (auto simp: terminated_def)

lemma read_text_write:
  assumes "wf_store cp"
  shows "read_text (cp_write cp) = Inr cp"
proof -
  let ?ls = "concat (map section_lines (sections cp))"
  from assms have d: "distinct (map fst (sections cp))"
    and a: "list_all (\<lambda>s. wf_section_name (fst s) \<and> wf_options (snd s)) (sections cp)"
    and e: "defaults cp = []"
    by (simp_all add: wf_store_def)
  have w: "cp_write cp = terminated ?ls" by (rule write_lines [OF e])
  have u: "universal_newlines (terminated ?ls) = terminated ?ls"
    using store_lines_chars [OF assms] by (intro universal_newlines_id terminated_no_cr) blast
  have f: "file_lines (terminated ?ls) = ?ls"
    using store_lines_chars [OF assms] by (intro file_lines_terminated) blast
  have b: "between initial_read_state []"
    by (simp add: between_def initial_read_state_def)
  from read_sections [OF b d _ a]
  obtain st where r: "read_lines initial_read_state ?ls = Inr st"
    and i: "between st (map (\<lambda>s. (fst s, raw_options (snd s))) (sections cp))"
    by auto
  from i have "r_sections st = map (\<lambda>s. (fst s, raw_options (snd s))) (sections cp)" "\<not> r_e st"
    by (simp_all add: between_def)
  with r e show ?thesis
    by (simp add: read_text_def w u f join_raw_sections [OF a])
qed

text \<open>
  Claim C5, amended. For a store of the form above (\<open>wf_store\<close>), reading the text
  written from it gives the same store back: the same sections in the same order, each
  with the same option names and the same values, values of several lines included; and
  so does reading the file it was written to.
\<close>

theorem write_then_read:
  assumes "wf_store cp"
  shows "read_text (cp_write cp) = Inr cp \<and> cp_read (files(p \<mapsto> cp_write cp)) p = Inr cp"
  using read_text_write [OF assms] by (simp add: cp_read_def)

theorem write_then_read_witness:
  "wf_store sample_store \<and> read_text (cp_write sample_store) = Inr sample_store \<and>
   wf_store nested_store \<and>
   cp_read (Map.empty(''/home/alice/.aws/credentials'' \<mapsto> cp_write nested_store))
     ''/home/alice/.aws/credentials'' = Inr nested_store"
proof -
  have w: "wf_store sample_store" by code_simp
  have n: "wf_store nested_store" by code_simp
  from write_then_read [OF w, of Map.empty "''/home/alice/.aws/credentials''"]
       write_then_read [OF n, of Map.empty "''/home/alice/.aws/credentials''"] w n
  show ?thesis by simp
qed

text \<open>
  Claim C5 as stated fails: a value with white space in front, which \<^verbatim>\<open>set\<close> accepts,
  is read back without it.
\<close>

theorem write_then_read_counterexample:
  "set_option \<lparr>defaults = [], sections = [(''default'', [])]\<rparr> ''default'' ''aws_session_token''
       '' token''
     = Inr \<lparr>defaults = [], sections = [(''default'', [(''aws_session_token'', '' token'')])]\<rparr> \<and>
   read_text (cp_write
       \<lparr>defaults = [], sections = [(''default'', [(''aws_session_token'', '' token'')])]\<rparr>)
     = Inr \<lparr>defaults = [], sections = [(''default'', [(''aws_session_token'', ''token'')])]\<rparr>"
  by code_simp

subsection \<open>The other profiles\<close>

lemma update_last_entry:
  "k \<notin> fst ` set ys \<Longrightarrow> AList.update k v (ys @ [(k, x)]) = ys @ [(k, v)]"
  by (induction ys) auto

lemma lookup_last_entry: "k \<notin> fst ` set ys \<Longrightarrow> map_of (ys @ [(k, x)]) k = Some x"
  by (induction ys) auto

lemma set_option_shape:
  assumes "set_option cp P k v = Inr cp'" and "P \<noteq> []"
    and "sections cp = others @ [(P, d)]" and "P \<notin> fst ` set others"
  shows "\<exists>d'. sections cp' = others @ [(P, d')] \<and> defaults cp' = defaults cp"
proof -
  have lk: "map_of (sections cp) P = Some d"
    using lookup_last_entry [OF assms(4), of d] assms(3) by simp
  have up: "AList.update P x (sections cp) = others @ [(P, x)]" for x
    using update_last_entry [OF assms(4), of x d] assms(3) by simp
  from assms(1,2) show ?thesis
    by (auto simp: set_option_def lk up split: sum.splits if_splits)
qed

lemma set_all_shape:
  assumes "set_all cp P kvs = Inr cp'" and "P \<noteq> []"
    and "sections cp = others @ [(P, d)]" and "P \<notin> fst ` set others"
  shows "\<exists>d'. sections cp' = others @ [(P, d')] \<and> defaults cp' = defaults cp"
  using assms
proof (induction kvs arbitrary: cp d)
  case Nil
  then show ?case by simp
next
  case (Cons kv kvs)
  obtain k v where kv: "kv = (k, v)" by (cases kv)
  from Cons.prems(1) kv obtain cp1 where 1: "set_option cp P k v = Inr cp1"
    and 2: "set_all cp1 P kvs = Inr cp'"
    by (auto split: sum.splits)
  from set_option_shape [OF 1 Cons.prems(2,3,4)] obtain d1 where
    s: "sections cp1 = others @ [(P, d1)]" and e: "defaults cp1 = defaults cp"
    by blast
  from Cons.IH [OF 2 Cons.prems(2) s Cons.prems(4)] e show ?case by simp
qed

lemma rebuild_target_shape:
  assumes "rebuild_target a cp c = Inr cp'" and "target_profile a \<noteq> []"
  shows "\<exists>prof. sections cp' = AList.delete (target_profile a) (sections cp) @ [(target_profile a, prof)]
                \<and> defaults cp' = defaults cp"
proof -
  let ?P = "target_profile a"
  let ?others = "AList.delete ?P (sections cp)"
  from assms(1) obtain cp1 kvs cp2 cp3 cp4 cp5 where
    1: "add_section (remove_section cp ?P) ?P = Inr cp1" and
    2: "set_all cp1 ?P kvs = Inr cp2" and
    3: "set_option cp2 ?P ''aws_access_key_id'' (AccessKeyId c) = Inr cp3" and
    4: "set_option cp3 ?P ''aws_secret_access_key'' (SecretAccessKey c) = Inr cp4" and
    5: "set_option cp4 ?P ''aws_session_token'' (SessionToken c) = Inr cp5" and
    6: "set_option cp5 ?P ''awsmfa_expiration'' (isoformat (Expiration c)) = Inr cp'"
    unfolding rebuild_target_def by (auto split: sum.splits)
  have n: "?P \<notin> fst ` set ?others" by (rule AList.delete_notin_dom)
  from add_remove_others [OF 1] have s1: "sections cp1 = ?others @ [(?P, [])]"
    and e1: "defaults cp1 = defaults cp" by simp_all
  from set_all_shape [OF 2 assms(2) s1 n] obtain d2 where
    s2: "sections cp2 = ?others @ [(?P, d2)]" and e2: "defaults cp2 = defaults cp1" by blast
  from set_option_shape [OF 3 assms(2) s2 n] obtain d3 where
    s3: "sections cp3 = ?others @ [(?P, d3)]" and e3: "defaults cp3 = defaults cp2" by blast
  from set_option_shape [OF 4 assms(2) s3 n] obtain d4 where
    s4: "sections cp4 = ?others @ [(?P, d4)]" and e4: "defaults cp4 = defaults cp3" by blast
  from set_option_shape [OF 5 assms(2) s4 n] obtain d5 where
    s5: "sections cp5 = ?others @ [(?P, d5)]" and e5: "defaults cp5 = defaults cp4" by blast
  from set_option_shape [OF 6 assms(2) s5 n] obtain d6 where
    s6: "sections cp' = ?others @ [(?P, d6)]" and e6: "defaults cp' = defaults cp5" by blast
  from s6 e1 e2 e3 e4 e5 e6 show ?thesis by simp
qed

lemma items_cong:
  "defaults cp' = defaults cp \<Longrightarrow> map_of (sections cp') q = map_of (sections cp) q \<Longrightarrow>
     items cp' q = items cp q"
  by (simp add: items_def split: option.splits)

lemma wf_store_replaced:
  assumes "wf_store cp" and "wf_section_name P" and "wf_options prof"
    and "sections cp' = AList.delete P (sections cp) @ [(P, prof)]" and "defaults cp' = defaults cp"
  shows "wf_store cp'"
proof -
  have d: "distinct (map fst (AList.delete P (sections cp)))"
    using assms(1) by (simp add: wf_store_def AList.distinct_delete)
  have n: "P \<notin> fst ` set (AList.delete P (sections cp))" by (rule AList.delete_notin_dom)
  have s: "set (AList.delete P (sections cp)) \<subseteq> set (sections cp)"
    by (auto simp: AList.delete_eq)
  have "list_all (\<lambda>s. wf_section_name (fst s) \<and> wf_options (snd s)) (AList.delete P (sections cp))"
    using assms(1) s by (auto simp: wf_store_def list_all_iff)
  with d n assms show ?thesis by (simp add: wf_store_def)
qed

text \<open>
  Claim C4, amended. After a successful \<open>update_credentials_file\<close> with a non-empty
  target profile name: the default options are unchanged; the sections are the sections
  other than the target as they were (same names, same options, same values, same order)
  followed by the target; the text written is the text of the store without the target
  followed by the text of the target section; every other profile name looks up the same
  section and has the same \<^verbatim>\<open>items()\<close>; and the credentials file holds that text. When
  moreover the store before was of the form \<open>wf_store\<close>, the target name has no line
  break and the rebuilt target profile is of the form \<open>wf_options\<close>, reading the
  credentials file gives the store back, the other profiles with it.
\<close>

theorem other_profiles_unchanged:
  assumes "update_credentials_file flt a cp c files = (Inr cp', history)"
    and "target_profile a \<noteq> []"
  shows "defaults cp' = defaults cp \<and>
         sections cp' = AList.delete (target_profile a) (sections cp)
                          @ [(target_profile a, the (map_of (sections cp') (target_profile a)))] \<and>
         cp_write cp' = cp_write (remove_section cp (target_profile a))
                          @ write_section (target_profile a)
                              (the (map_of (sections cp') (target_profile a))) \<and>
         (\<forall>q. q \<noteq> target_profile a \<longrightarrow>
              map_of (sections cp') q = map_of (sections cp) q \<and> items cp' q = items cp q) \<and>
         last history (aws_credentials a) = Some (cp_write cp') \<and>
         (wf_store cp \<and> wf_section_name (target_profile a) \<and>
          wf_options (the (map_of (sections cp') (target_profile a))) \<longrightarrow>
            cp_read (last history) (aws_credentials a) = Inr cp')"
proof -
  let ?P = "target_profile a"
  note s = update_success [OF assms(1)]
  from rebuild_target_shape [OF conjunct1 [OF s] assms(2)] obtain prof where
    sh: "sections cp' = AList.delete ?P (sections cp) @ [(?P, prof)]"
    and e: "defaults cp' = defaults cp"
    by blast
  have n: "?P \<notin> fst ` set (AList.delete ?P (sections cp))" by (rule AList.delete_notin_dom)
  have p: "the (map_of (sections cp') ?P) = prof"
    using sh lookup_last_entry [OF n] by simp
  have w: "cp_write cp' = cp_write (remove_section cp ?P) @ write_section ?P prof"
    using sh e by (simp add: cp_write_def remove_section_def)
  have m: "map_of (sections cp') q = map_of (sections cp) q" if "q \<noteq> ?P" for q
    using sh that by (simp add: map_add_def AList.delete_conv' split: option.splits)
  have i: "items cp' q = items cp q" if "q \<noteq> ?P" for q
    using items_cong [OF e m [OF that]] .
  have l: "last history (aws_credentials a) = Some (cp_write cp')" using s by simp
  have r: "cp_read (last history) (aws_credentials a) = Inr cp'"
    if "wf_store cp" "wf_section_name ?P" "wf_options prof"
    using l read_text_write [OF wf_store_replaced [OF that sh e]] by (simp add: cp_read_def)
  from e sh w m i l r show ?thesis unfolding p by simp
qed


theorem other_profiles_unchanged_witness:
  "defaults (projr (fst (update_credentials_file NoFault sample_args sample_store
       sample_credentials sample_files))) = [] \<and>
   AList.delete ''default'' (sections sample_store)
     = [(''identity'', [(''aws_access_key_id'', ''AKIAEXAMPLE''),
                        (''aws_secret_access_key'', ''long-lived''),
                        (''region'', ''us-east-1'')]),
        (''work'', [(''region'', ''eu-west-1'')])] \<and>
   sections (projr (fst (update_credentials_file NoFault sample_args sample_store
       sample_credentials sample_files)))
     = AList.delete ''default'' (sections sample_store) @
       [(''default'',
         [(''aws_access_key_id'', ''ASIAEXAMPLE''), (''aws_secret_access_key'', ''secret''),
          (''region'', ''us-east-1''), (''aws_session_token'', ''token''),
          (''awsmfa_expiration'', ''2024-05-17T09:30:00+00:00'')])] \<and>
   items (projr (fst (update_credentials_file NoFault sample_args sample_store
       sample_credentials sample_files))) ''work'' = items sample_store ''work'' \<and>
   cp_read (last (snd (update_credentials_file NoFault sample_args sample_store sample_credentials
       sample_files))) ''/home/alice/.aws/credentials''
     = fst (update_credentials_file NoFault sample_args sample_store sample_credentials
         sample_files)"
proof -
  let ?r = "update_credentials_file NoFault sample_args sample_store sample_credentials sample_files"
  let ?prof = "[(''aws_access_key_id'', ''ASIAEXAMPLE''), (''aws_secret_access_key'', ''secret''),
          (''region'', ''us-east-1''), (''aws_session_token'', ''token''),
          (''awsmfa_expiration'', ''2024-05-17T09:30:00+00:00'')]"
  note f = sample_rotation
  then have 2: "?r = (Inr (projr (fst ?r)), snd ?r)" by (metis prod.collapse sum.sel(2))
  have t: "target_profile sample_args = ''default''"
    and p: "aws_credentials sample_args = ''/home/alice/.aws/credentials''"
    by (simp_all add: sample_args_def)
  have 3: "target_profile sample_args \<noteq> []" by (simp add: t)
  have pr: "the (map_of (sections (projr (fst ?r))) ''default'') = ?prof"
    unfolding f by simp
  have w: "wf_store sample_store" "wf_section_name ''default''" "wf_options ?prof"
    by code_simp+
  have o: "AList.delete ''default'' (sections sample_store)
             = [(''identity'', [(''aws_access_key_id'', ''AKIAEXAMPLE''),
                                (''aws_secret_access_key'', ''long-lived''),
                                (''region'', ''us-east-1'')]),
                (''work'', [(''region'', ''eu-west-1'')])]"
    by (simp add: sample_store_def)
  have sd: "defaults sample_store = []" by (simp add: sample_store_def)
  from other_profiles_unchanged [OF 2 3]
  have d: "defaults (projr (fst ?r)) = defaults sample_store"
    and s: "sections (projr (fst ?r)) = AList.delete ''default'' (sections sample_store)
              @ [(''default'', ?prof)]"
    and i: "items (projr (fst ?r)) ''work'' = items sample_store ''work''"
    and r: "wf_store sample_store \<and> wf_section_name ''default'' \<and> wf_options ?prof \<longrightarrow>
              cp_read (last (snd ?r)) ''/home/alice/.aws/credentials'' = Inr (projr (fst ?r))"
    unfolding t p pr by simp_all
  from r w have "cp_read (last (snd ?r)) ''/home/alice/.aws/credentials'' = fst ?r"
    by (simp add: f)
  with d s i o sd show ?thesis by simp
qed

text \<open>
  Claim C4 as stated fails for the empty profile name: \<^verbatim>\<open>set\<close> then writes to the
  default options, which every other profile inherits, and the file written is not a
  file the parser accepts. The run ends with the status of success.
\<close>

theorem empty_target_counterexample:
  "fst (main sample_env (sample_args\<lparr>target_profile := []\<rparr>) sample_files) = Returned OK \<and>
   items sample_store ''work'' = Inr [(''region'', ''eu-west-1'')] \<and>
   items (projr (fst (update_credentials_file NoFault (sample_args\<lparr>target_profile := []\<rparr>)
       sample_store sample_credentials sample_files))) ''work''
     = Inr [(''aws_access_key_id'', ''ASIAEXAMPLE''), (''aws_secret_access_key'', ''secret''),
            (''region'', ''eu-west-1''), (''aws_session_token'', ''token''),
            (''awsmfa_expiration'', ''2024-05-17T09:30:00+00:00'')] \<and>
   cp_read (fst (snd (main sample_env (sample_args\<lparr>target_profile := []\<rparr>) sample_files)))
       ''/home/alice/.aws/credentials''
     = Inl ParsingError"
  by code_simp

end
